theory Spec2Isabelle
  imports Main "HOL-Library.Word" "HOL-Library.Multiset" "HOL-Library.AList"
begin

section \<open>Message queue: the binary heap of unacknowledged message ids\<close>

text \<open>
  Message ids are Go \<open>uint64\<close> values. A \<open>MessageQueue\<close> is a slice of ids that the
  server maintains through Go's \<open>container/heap\<close> package; the slice is the array layout
  of a binary min-heap (children of index \<open>i\<close> at \<open>2*i+1\<close> and \<open>2*i+2\<close>).
\<close>

type_synonym u64 = "64 word"
type_synonym MessageQueue = "u64 list"

text \<open>\<open>Less\<close> and \<open>Swap\<close> of the heap interface. Every call made by the heap
  operations below passes indices inside the slice.\<close>

definition Less :: "MessageQueue \<Rightarrow> nat \<Rightarrow> nat \<Rightarrow> bool" where
  "Less q i j = (q ! i < q ! j)"

definition Swap :: "MessageQueue \<Rightarrow> nat \<Rightarrow> nat \<Rightarrow> MessageQueue" where
  "Swap q i j = q[i := q ! j, j := q ! i]"

text \<open>The methods \<open>Push\<close> and \<open>Pop\<close> of \<open>MessageQueue\<close>, named \<open>Push_q\<close> and
  \<open>Pop_q\<close> here to keep \<open>Push\<close> for \<open>heap.Push\<close>: the first appends, the second drops
  the last element (the popped item itself is not used by the server).\<close>

definition Push_q :: "MessageQueue \<Rightarrow> u64 \<Rightarrow> MessageQueue" where
  "Push_q q x = q @ [x]"

definition Pop_q :: "MessageQueue \<Rightarrow> MessageQueue" where
  "Pop_q q = take (length q - 1) q"

text \<open>
  \<open>heap.up\<close>: the loop \<open>for { i := (j-1)/2; if i == j || !Less(j,i) {break}; Swap(i,j); j = i }\<close>.
  Go's integer division truncates towards zero, so for \<open>j = 0\<close> the parent index
  \<open>(0-1)/2\<close> is \<open>0\<close>; truncated subtraction on \<open>nat\<close> gives the same value.
\<close>

function up :: "MessageQueue \<Rightarrow> nat \<Rightarrow> MessageQueue" where
  "up h j =
     (let i = (j - 1) div 2 in
      if i = j \<or> \<not> Less h j i then h else up (Swap h i j) i)"
  by pat_completeness auto
termination
  by (relation "measure (\<lambda>(h, j). j)") auto

declare up.simps [simp del]

text \<open>
  \<open>heap.down\<close>: sifts the element at \<open>i0\<close> down inside the first \<open>n\<close> slots and reports
  whether it moved. \<open>down_loop\<close> is the loop, returning the slice and the final index.
  The loop's second exit test, \<open>j1 < 0\<close>, guards against overflow of \<open>2*i + 1\<close> in a
  machine \<open>int\<close>; indices are \<open>nat\<close> here and a slice is far shorter than that.
\<close>

function down_loop :: "MessageQueue \<Rightarrow> nat \<Rightarrow> nat \<Rightarrow> MessageQueue \<times> nat" where
  "down_loop h i n =
     (let j1 = 2 * i + 1 in
      if j1 \<ge> n then (h, i)
      else
        let j2 = j1 + 1;
            j = (if j2 < n \<and> Less h j2 j1 then j2 else j1)
        in if \<not> Less h j i then (h, i) else down_loop (Swap h i j) j n)"
  by pat_completeness auto
termination
  by (relation "measure (\<lambda>(h, i, n). n - i)") (auto simp: Let_def split: if_splits)

declare down_loop.simps [simp del]

definition down :: "MessageQueue \<Rightarrow> nat \<Rightarrow> nat \<Rightarrow> MessageQueue \<times> bool" where
  "down h i0 n = (case down_loop h i0 n of (h', i) \<Rightarrow> (h', i > i0))"

text \<open>\<open>heap.Init\<close>: \<open>for i := n/2 - 1; i >= 0; i-- { down(h, i, n) }\<close>. The first
  argument of \<open>Init_loop\<close> is \<open>i + 1\<close>.\<close>

fun Init_loop :: "nat \<Rightarrow> nat \<Rightarrow> MessageQueue \<Rightarrow> MessageQueue" where
  "Init_loop 0 n h = h"
| "Init_loop (Suc i) n h = Init_loop i n (fst (down h i n))"

definition Init :: "MessageQueue \<Rightarrow> MessageQueue" where
  "Init h = (let n = length h in Init_loop (n div 2) n h)"

text \<open>\<open>heap.Push\<close>: append, then sift the new last element up.\<close>

definition Push :: "MessageQueue \<Rightarrow> u64 \<Rightarrow> MessageQueue" where
  "Push h x = (let h' = Push_q h x in up h' (length h' - 1))"

text \<open>
  \<open>heap.Remove(h, i)\<close>: swap slot \<open>i\<close> with the last slot, restore the heap order at
  \<open>i\<close> (down, and up when down did not move it), then pop the last slot.
\<close>

definition Remove :: "MessageQueue \<Rightarrow> nat \<Rightarrow> MessageQueue" where
  "Remove h i =
     (let n = length h - 1 in
      Pop_q (if n \<noteq> i then
               (let h1 = Swap h i n in
                case down h1 i n of (h2, moved) \<Rightarrow> if \<not> moved then up h2 i else h2)
             else h))"


section \<open>Topic, subscriptions and the server state\<close>

text \<open>The structs \<open>Topic\<close> and \<open>Subscription\<close> without their locks. Both have a field
  \<open>Name\<close>; the topic's is \<open>Topic_Name\<close> here.\<close>

record Topic =
  Topic_Name :: string
  NextMesgID :: u64

record Subscription =
  Name :: string
  UnAcked :: MessageQueue

text \<open>
  The package-level variables: \<open>subs\<close> (subscription name to subscription), \<open>topic\<close>,
  and the data directory, whose file named by the decimal form of a message id holds that
  message's body. A subscription object is reachable only through its entry in \<open>subs\<close>;
  handlers run to completion one after the other, so the entry stands for the object.
\<close>

record server =
  subs :: "string \<rightharpoonup> Subscription"
  topic :: Topic
  files :: "u64 \<rightharpoonup> string"

definition server0 :: server where
  "server0 = \<lparr>subs = Map.empty,
              topic = \<lparr>Topic_Name = ''<default-topic>'', NextMesgID = 0\<rparr>,
              files = Map.empty\<rparr>"

subsection \<open>Requests and responses\<close>

text \<open>A request after \<open>ParseForm\<close>: its method and its form values. \<open>Form_Get\<close> is
  \<open>url.Values.Get\<close>: the first value of the key, or the empty string.\<close>

record request =
  Method :: string
  Form :: "string \<Rightarrow> string list"

definition Form_Get :: "(string \<Rightarrow> string list) \<Rightarrow> string \<Rightarrow> string" where
  "Form_Get f key = (case f key of [] \<Rightarrow> [] | v # _ \<Rightarrow> v)"

record JSONResponse =
  NMessage :: nat
  Messages :: "(u64 \<times> string) list"

text \<open>What a handler leaves behind: a status code with an optional JSON body, or a
  run-time panic that unwinds the handler.\<close>

datatype outcome = Response nat "JSONResponse option" | Panic

definition StatusOK :: nat where "StatusOK = 200"
definition StatusBadRequest :: nat where "StatusBadRequest = 400"
definition StatusMethodNotAllowed :: nat where "StatusMethodNotAllowed = 405"
definition StatusInternalServerError :: nat where "StatusInternalServerError = 500"

subsection \<open>Library parsing used by the handlers\<close>

text \<open>
  \<open>validSubRegexp\<close> is the pattern \<open>^([a-zA-Z])([a-zA-Z0-9_-])*$\<close>: a letter followed by
  letters, digits, underscores and hyphens.
\<close>

definition is_letter :: "char \<Rightarrow> bool" where
  "is_letter c = (let k = (of_char c :: nat) in (97 \<le> k \<and> k \<le> 122) \<or> (65 \<le> k \<and> k \<le> 90))"

definition is_digit :: "char \<Rightarrow> bool" where
  "is_digit c = (let k = (of_char c :: nat) in 48 \<le> k \<and> k \<le> 57)"

definition is_name_char :: "char \<Rightarrow> bool" where
  "is_name_char c = (is_letter c \<or> is_digit c \<or> c = CHR ''_'' \<or> c = CHR ''-'')"

fun validSubRegexp :: "string \<Rightarrow> bool" where
  "validSubRegexp [] = False"
| "validSubRegexp (c # cs) = (is_letter c \<and> list_all is_name_char cs)"

text \<open>The value of a string of decimal digits; \<open>None\<close> when a character is not a digit.\<close>

fun digits_value :: "string \<Rightarrow> nat \<Rightarrow> nat option" where
  "digits_value [] acc = Some acc"
| "digits_value (c # cs) acc =
     (if is_digit c then digits_value cs (10 * acc + (of_char c - 48)) else None)"

text \<open>\<open>strconv.ParseUint(s, 10, 64)\<close>: digits only, at least one, value below \<open>2^64\<close>.\<close>

definition ParseUint :: "string \<Rightarrow> u64 option" where
  "ParseUint s =
     (if s = [] then None
      else case digits_value s 0 of
             None \<Rightarrow> None
           | Some v \<Rightarrow> if v < 2 ^ 64 then Some (word_of_nat v) else None)"

text \<open>\<open>strconv.Atoi\<close> with a 64-bit \<open>int\<close>: an optional sign, then digits, at least
  one, value within \<open>-2^63 .. 2^63 - 1\<close>.\<close>

definition Atoi :: "string \<Rightarrow> int option" where
  "Atoi s =
     (let (neg, ds) = (case s of
                         [] \<Rightarrow> (False, [])
                       | c # r \<Rightarrow> if c = CHR ''-'' then (True, r)
                                  else if c = CHR ''+'' then (False, r)
                                  else (False, s))
      in if ds = [] then None
         else case digits_value ds 0 of
                None \<Rightarrow> None
              | Some v \<Rightarrow>
                  let x = (if neg then - int v else int v)
                  in if - (2 ^ 63) \<le> x \<and> x < 2 ^ 63 then Some x else None)"

section \<open>The operations of the server\<close>

text \<open>
  \<open>GetSubscription\<close>: the subscription named by the request's \<open>sub\<close> value, created
  and registered when absent. \<open>None\<close> is the \<open>(nil, false)\<close> return, before which the
  function has written status 400.
\<close>

definition GetSubscription :: "server \<Rightarrow> request \<Rightarrow> server \<times> Subscription option" where
  "GetSubscription s r =
     (let name = Form_Get (Form r) ''sub'' in
      if \<not> validSubRegexp name then (s, None)
      else case subs s name of
             Some sub \<Rightarrow> (s, Some sub)
           | None \<Rightarrow>
               let sub = \<lparr>Name = name, UnAcked = Init []\<rparr>
               in (s\<lparr>subs := (subs s)(name \<mapsto> sub)\<rparr>, Some sub))"

definition DestroySubscription :: "server \<Rightarrow> Subscription \<Rightarrow> server" where
  "DestroySubscription s sub = s\<lparr>subs := (subs s)(Name sub := None)\<rparr>"

text \<open>\<open>CreateMessageIds\<close>: \<open>baseID := topic.NextMesgID; topic.NextMesgID += uint64(nMessage)\<close>.
  The addition is that of \<open>uint64\<close> and wraps around.\<close>

definition CreateMessageIds :: "server \<Rightarrow> int \<Rightarrow> u64 \<times> server" where
  "CreateMessageIds s nMessage =
     (let baseID = NextMesgID (topic s)
      in (baseID, s\<lparr>topic := (topic s)\<lparr>NextMesgID := NextMesgID (topic s) + word_of_int nMessage\<rparr>\<rparr>))"

text \<open>
  \<open>FindUnAckedMessageIds\<close>: \<open>n\<close> is \<open>maxMessages\<close>, lowered to the queue's length when
  that is smaller; \<open>make([]uint64, n)\<close> panics for a negative \<open>n\<close>; otherwise the result is
  a copy of the first \<open>n\<close> slots of the queue's slice. The subscription is only read.
\<close>

datatype panic = MakesliceLenOutOfRange

definition FindUnAckedMessageIds :: "Subscription \<Rightarrow> int \<Rightarrow> panic + u64 list" where
  "FindUnAckedMessageIds sub maxMessages =
     (let n = (if int (length (UnAcked sub)) < maxMessages
               then int (length (UnAcked sub)) else maxMessages)
      in if n < 0 then Inl MakesliceLenOutOfRange
         else Inr (take (nat n) (UnAcked sub)))"

text \<open>
  \<open>PutMessages\<close>, first loop: message \<open>i\<close> is written to the file of id
  \<open>baseID + uint64(i)\<close>; the first failing write ends the function with its error. Whether
  the file system accepts a write is the parameter \<open>writable\<close>.
\<close>

fun write_loop :: "(u64 \<Rightarrow> bool) \<Rightarrow> u64 \<Rightarrow> nat \<Rightarrow> string list \<Rightarrow> (u64 \<rightharpoonup> string)
    \<Rightarrow> (u64 \<rightharpoonup> string) \<times> bool" where
  "write_loop writable baseID i [] fs = (fs, True)"
| "write_loop writable baseID i (m # ms) fs =
     (let mid = baseID + word_of_nat i
      in if \<not> writable mid then (fs, False)
         else write_loop writable baseID (Suc i) ms (fs(mid \<mapsto> m)))"

text \<open>Second loop, for one subscription:
  \<open>for i := baseID; i < baseID+uint64(len(messages)); i++ { heap.Push(&sub.UnAcked, i) }\<close>.\<close>

function fan_loop :: "u64 \<Rightarrow> u64 \<Rightarrow> MessageQueue \<Rightarrow> MessageQueue" where
  "fan_loop i bound q = (if i < bound then fan_loop (i + 1) bound (Push q i) else q)"
  by pat_completeness auto
termination
proof (relation "measure (\<lambda>(i, bound, q). unat bound - unat i)")
  show "wf (measure (\<lambda>(i, bound, q). unat bound - unat i))"
    by simp
next
  fix i bound :: u64 and q :: MessageQueue
  assume lt: "i < bound"
  then have "i \<noteq> - 1"
    by (metis word_order.extremum_strict)
  then have "unat (i + 1) = unat i + 1"
    by (metis add.commute unatSuc add_eq_0_iff2 Suc_eq_plus1)
  moreover from lt have "unat i < unat bound"
    by (simp add: word_less_nat_alt)
  ultimately show "((i + 1, bound, Push q i), (i, bound, q))
      \<in> measure (\<lambda>(i, bound, q). unat bound - unat i)"
    by simp
qed

declare fan_loop.simps [simp del]

definition PutMessages :: "(u64 \<Rightarrow> bool) \<Rightarrow> server \<Rightarrow> string list \<Rightarrow> u64 \<Rightarrow> server \<times> bool" where
  "PutMessages writable s messages baseID =
     (case write_loop writable baseID 0 messages (files s) of
        (fs, False) \<Rightarrow> (s\<lparr>files := fs\<rparr>, False)
      | (fs, True) \<Rightarrow>
          (s\<lparr>files := fs,
             subs := (\<lambda>name. map_option
                        (\<lambda>sub. sub\<lparr>UnAcked :=
                           fan_loop baseID (baseID + word_of_nat (length messages)) (UnAcked sub)\<rparr>)
                        (subs s name))\<rparr>,
           True))"

text \<open>\<open>GetMessages\<close>: the bodies of the ids, read from their files into a map; the first
  missing file ends the function with its error. The Go map is kept as an association
  list with one entry per key.\<close>

fun GetMessages_loop :: "(u64 \<rightharpoonup> string) \<Rightarrow> u64 list \<Rightarrow> (u64 \<times> string) list
    \<Rightarrow> (u64 \<times> string) list \<times> bool" where
  "GetMessages_loop fs [] messages = (messages, True)"
| "GetMessages_loop fs (mid # ids) messages =
     (case fs mid of
        None \<Rightarrow> (messages, False)
      | Some bs \<Rightarrow> GetMessages_loop fs ids (AList.update mid bs messages))"

definition GetMessages :: "server \<Rightarrow> u64 list \<Rightarrow> (u64 \<times> string) list \<times> bool" where
  "GetMessages s ids = GetMessages_loop (files s) ids []"

text \<open>
  \<open>AckMessages\<close>. \<open>idMap\<close> is a \<open>map[uint64]bool\<close>, whose lookup of an absent key is
  \<open>false\<close>; \<open>nID\<close> counts the elements of \<open>ids\<close>. The loop
  \<open>for i := len(sub.UnAcked) - 1; i >= 0; i--\<close> is \<open>ack_loop\<close>, whose second argument is
  \<open>i + 1\<close>.
\<close>

definition idMap_lookup :: "(u64 \<rightharpoonup> bool) \<Rightarrow> u64 \<Rightarrow> bool" where
  "idMap_lookup m k = (case m k of None \<Rightarrow> False | Some b \<Rightarrow> b)"

fun ack_loop :: "(u64 \<rightharpoonup> bool) \<Rightarrow> nat \<Rightarrow> nat \<Rightarrow> MessageQueue \<Rightarrow> MessageQueue" where
  "ack_loop idMap 0 nID q = q"
| "ack_loop idMap (Suc i) nID q =
     (if nID = 0 then q
      else if idMap_lookup idMap (q ! i) then ack_loop idMap i (nID - 1) (Remove q i)
      else ack_loop idMap i nID q)"

definition AckMessages :: "u64 list \<Rightarrow> Subscription \<Rightarrow> Subscription" where
  "AckMessages ids sub =
     (let idMap = fold (\<lambda>k m. m(k \<mapsto> True)) ids Map.empty;
          nID = fold (\<lambda>_ n. n + 1) ids (0 :: nat)
      in sub\<lparr>UnAcked := ack_loop idMap (length (UnAcked sub)) nID (UnAcked sub)\<rparr>)"

text \<open>\<open>marshall\<close> builds the \<open>JSONResponse\<close> of a message map. The encoding of a
  count and a map from numbers to strings has no failing case, so the error branches after
  it in the \<open>/pull\<close> handler are never taken.\<close>

definition marshall :: "(u64 \<times> string) list \<Rightarrow> JSONResponse" where
  "marshall messages = \<lparr>NMessage = length messages, Messages = messages\<rparr>"

subsection \<open>The HTTP handlers\<close>

definition send_handler :: "(u64 \<Rightarrow> bool) \<Rightarrow> server \<Rightarrow> request \<Rightarrow> server \<times> outcome" where
  "send_handler writable s r =
     (if Method r \<noteq> ''POST'' then (s, Response StatusMethodNotAllowed None)
      else
        let messages = Form r ''message'' in
        case CreateMessageIds s (int (length messages)) of (baseID, s1) \<Rightarrow>
          (case PutMessages writable s1 messages baseID of
             (s2, False) \<Rightarrow> (s2, Response StatusInternalServerError None)
           | (s2, True) \<Rightarrow> (s2, Response StatusOK None)))"

definition unsub_handler :: "server \<Rightarrow> request \<Rightarrow> server \<times> outcome" where
  "unsub_handler s r =
     (if Method r \<noteq> ''POST'' then (s, Response StatusMethodNotAllowed None)
      else case GetSubscription s r of
             (s1, None) \<Rightarrow> (s1, Response StatusBadRequest None)
           | (s1, Some sub) \<Rightarrow> (DestroySubscription s1 sub, Response StatusOK None))"

definition pull_handler :: "server \<Rightarrow> request \<Rightarrow> server \<times> outcome" where
  "pull_handler s r =
     (case GetSubscription s r of
        (s1, None) \<Rightarrow> (s1, Response StatusBadRequest None)
      | (s1, Some sub) \<Rightarrow>
          (case Atoi (Form_Get (Form r) ''n'') of
             None \<Rightarrow> (s1, Response StatusBadRequest None)
           | Some nMessage \<Rightarrow>
               (case FindUnAckedMessageIds sub nMessage of
                  Inl p \<Rightarrow> (s1, Panic)
                | Inr messageIDs \<Rightarrow>
                    (case GetMessages s1 messageIDs of
                       (messages, False) \<Rightarrow> (s1, Response StatusInternalServerError None)
                     | (messages, True) \<Rightarrow> (s1, Response StatusOK (Some (marshall messages)))))))"

text \<open>The loop of the \<open>/ack\<close> handler that parses the \<open>id\<close> values.\<close>

fun parse_ids :: "string list \<Rightarrow> u64 list \<Rightarrow> u64 list option" where
  "parse_ids [] messageIDs = Some messageIDs"
| "parse_ids (idString # rest) messageIDs =
     (case ParseUint idString of
        None \<Rightarrow> None
      | Some mid \<Rightarrow> parse_ids rest (messageIDs @ [mid]))"

definition ack_handler :: "server \<Rightarrow> request \<Rightarrow> server \<times> outcome" where
  "ack_handler s r =
     (if Method r \<noteq> ''POST'' then (s, Response StatusMethodNotAllowed None)
      else case GetSubscription s r of
             (s1, None) \<Rightarrow> (s1, Response StatusBadRequest None)
           | (s1, Some sub) \<Rightarrow>
               (case parse_ids (Form r ''id'') [] of
                  None \<Rightarrow> (s1, Response StatusBadRequest None)
                | Some messageIDs \<Rightarrow>
                    (s1\<lparr>subs := (subs s1)(Name sub \<mapsto> AckMessages messageIDs sub)\<rparr>,
                     Response StatusOK None)))"


section \<open>Sequences of requests\<close>

text \<open>
  The four kinds of request with their parameters as the strings the client sends.
  \<open>handle\<close> builds the parsed form and calls the handler of the path; in \<open>handle\<close> the
  file system accepts every write.
\<close>

definition form_of :: "(string \<times> string list) list \<Rightarrow> string \<Rightarrow> string list" where
  "form_of kvs key = (case map_of kvs key of None \<Rightarrow> [] | Some vs \<Rightarrow> vs)"

datatype call = Send "string list" | Pull string string | Ack string "string list" | Unsub string

fun request_of :: "call \<Rightarrow> request" where
  "request_of (Send messages) = \<lparr>Method = ''POST'', Form = form_of [(''message'', messages)]\<rparr>"
| "request_of (Pull sub n) = \<lparr>Method = ''GET'', Form = form_of [(''sub'', [sub]), (''n'', [n])]\<rparr>"
| "request_of (Ack sub ids) = \<lparr>Method = ''POST'', Form = form_of [(''sub'', [sub]), (''id'', ids)]\<rparr>"
| "request_of (Unsub sub) = \<lparr>Method = ''POST'', Form = form_of [(''sub'', [sub])]\<rparr>"

fun handle :: "server \<Rightarrow> call \<Rightarrow> server \<times> outcome" where
  "handle s (Send messages) = send_handler (\<lambda>_. True) s (request_of (Send messages))"
| "handle s (Pull sub n) = pull_handler s (request_of (Pull sub n))"
| "handle s (Ack sub ids) = ack_handler s (request_of (Ack sub ids))"
| "handle s (Unsub sub) = unsub_handler s (request_of (Unsub sub))"

fun run :: "server \<Rightarrow> call list \<Rightarrow> server" where
  "run s [] = s"
| "run s (c # cs) = run (fst (handle s c)) cs"

section \<open>Notions used to state the claims\<close>

text \<open>Every registered subscription is stored under its own name. \<open>GetSubscription\<close>
  is the only place that registers one, and it does so under the name it gives it.\<close>

definition names_agree :: "server \<Rightarrow> bool" where
  "names_agree s = (\<forall>name sub. subs s name = Some sub \<longrightarrow> Name sub = name)"

text \<open>The ids of a batch of \<open>n\<close> messages reserved at \<open>baseID\<close>: \<open>PutMessages\<close> gives
  message \<open>i\<close> the id \<open>baseID + uint64(i)\<close>.\<close>

definition message_ids :: "u64 \<Rightarrow> int \<Rightarrow> u64 list" where
  "message_ids baseID n = map (\<lambda>i. baseID + word_of_nat i) [0..<nat n]"

text \<open>Successive calls of \<open>CreateMessageIds\<close> with the given counts; each call is
  recorded with the base id it returned.\<close>

fun Reserve_all :: "server \<Rightarrow> int list \<Rightarrow> (u64 \<times> int) list" where
  "Reserve_all s [] = []"
| "Reserve_all s (n # ns) =
     (case CreateMessageIds s n of (baseID, s') \<Rightarrow> (baseID, n) # Reserve_all s' ns)"

text \<open>Concrete data for the examples: nine message bodies, a server holding one
  subscription with two pending messages, and a topic whose counter is \<open>2^64 - 1\<close>.\<close>

definition nine_messages :: "string list" where
  "nine_messages = [''a'', ''b'', ''c'', ''d'', ''e'', ''f'', ''g'', ''h'', ''i'']"

definition server_two_pending :: server where
  "server_two_pending =
     \<lparr>subs = [''sub0'' \<mapsto> \<lparr>Name = ''sub0'', UnAcked = [0, 1]\<rparr>],
      topic = \<lparr>Topic_Name = ''<default-topic>'', NextMesgID = 2\<rparr>,
      files = [0 \<mapsto> ''a'', 1 \<mapsto> ''b'']\<rparr>"

definition server_last_id :: server where
  "server_last_id =
     server0\<lparr>topic := \<lparr>Topic_Name = ''<default-topic>'', NextMesgID = 18446744073709551615\<rparr>\<rparr>"

section \<open>Basic facts about the operations\<close>

lemma Init_Nil: "Init [] = []"
  by (simp add: Init_def)

lemma GetSubscription_invalid:
  "\<not> validSubRegexp (Form_Get (Form r) ''sub'') \<Longrightarrow> GetSubscription s r = (s, None)"
  by (simp add: GetSubscription_def)

lemma GetSubscription_existing:
  "validSubRegexp (Form_Get (Form r) ''sub'') \<Longrightarrow> subs s (Form_Get (Form r) ''sub'') = Some sub
   \<Longrightarrow> GetSubscription s r = (s, Some sub)"
  by (simp add: GetSubscription_def)

lemma GetSubscription_new:
  "validSubRegexp (Form_Get (Form r) ''sub'') \<Longrightarrow> subs s (Form_Get (Form r) ''sub'') = None
   \<Longrightarrow> GetSubscription s r =
       (s\<lparr>subs := (subs s)(Form_Get (Form r) ''sub'' \<mapsto>
                      \<lparr>Name = Form_Get (Form r) ''sub'', UnAcked = []\<rparr>)\<rparr>,
        Some \<lparr>Name = Form_Get (Form r) ''sub'', UnAcked = []\<rparr>)"
  by (simp add: GetSubscription_def Init_Nil Let_def)

lemma FindUnAckedMessageIds_nonneg:
  "0 \<le> maxMessages \<Longrightarrow>
   FindUnAckedMessageIds sub maxMessages = Inr (take (nat maxMessages) (UnAcked sub))"
  by (auto simp: FindUnAckedMessageIds_def Let_def)

lemma FindUnAckedMessageIds_negative:
  "maxMessages < 0 \<Longrightarrow> FindUnAckedMessageIds sub maxMessages = Inl MakesliceLenOutOfRange"
  by (auto simp: FindUnAckedMessageIds_def Let_def)

lemma AckMessages_Name: "Name (AckMessages ids sub) = Name sub"
  by (simp add: AckMessages_def Let_def)

lemma valid_sub0: "validSubRegexp ''sub0''"
  by (simp add: is_letter_def is_name_char_def is_digit_def)

lemma Form_Get_request_of_Pull:
  "Form_Get (Form (request_of (Pull sub n))) ''sub'' = sub"
  "Form_Get (Form (request_of (Pull sub n))) ''n'' = n"
  by (simp_all add: Form_Get_def form_of_def)

lemma Form_request_of_Ack:
  "Form_Get (Form (request_of (Ack sub ids))) ''sub'' = sub"
  "Form (request_of (Ack sub ids)) ''id'' = ids"
  "Method (request_of (Ack sub ids)) = ''POST''"
  by (simp_all add: Form_Get_def form_of_def)

lemma Form_request_of_Unsub:
  "Form_Get (Form (request_of (Unsub sub))) ''sub'' = sub"
  "Method (request_of (Unsub sub)) = ''POST''"
  by (simp_all add: Form_Get_def form_of_def)

lemma Form_request_of_Send:
  "Form (request_of (Send messages)) ''message'' = messages"
  "Method (request_of (Send messages)) = ''POST''"
  by (simp_all add: Form_Get_def form_of_def)


lemma Atoi_minus_one: "Atoi ''-1'' = Some (- 1)"
  by (simp add: Atoi_def is_digit_def)

lemma GetSubscription_idem:
  assumes g: "GetSubscription s r = (s1, res)"
  shows "GetSubscription s1 r = (s1, res)"
proof (cases "validSubRegexp (Form_Get (Form r) ''sub'')")
  case False
  with g show ?thesis by (simp add: GetSubscription_invalid)
next
  case True
  show ?thesis
  proof (cases "subs s (Form_Get (Form r) ''sub'')")
    case None
    have e: "GetSubscription s r =
        (s\<lparr>subs := (subs s)(Form_Get (Form r) ''sub'' \<mapsto>
                      \<lparr>Name = Form_Get (Form r) ''sub'', UnAcked = []\<rparr>)\<rparr>,
         Some \<lparr>Name = Form_Get (Form r) ''sub'', UnAcked = []\<rparr>)"
      using True None by (rule GetSubscription_new)
    with g have s1: "s1 = s\<lparr>subs := (subs s)(Form_Get (Form r) ''sub'' \<mapsto>
                      \<lparr>Name = Form_Get (Form r) ''sub'', UnAcked = []\<rparr>)\<rparr>"
      and res: "res = Some \<lparr>Name = Form_Get (Form r) ''sub'', UnAcked = []\<rparr>" by auto
    have "subs s1 (Form_Get (Form r) ''sub'')
        = Some \<lparr>Name = Form_Get (Form r) ''sub'', UnAcked = []\<rparr>"
      by (simp add: s1)
    with True have "GetSubscription s1 r
        = (s1, Some \<lparr>Name = Form_Get (Form r) ''sub'', UnAcked = []\<rparr>)"
      by (rule GetSubscription_existing)
    with res show ?thesis by simp
  next
    case (Some sub)
    have e: "GetSubscription s r = (s, Some sub)"
      using True Some by (rule GetSubscription_existing)
    with g have "s1 = s" and "res = Some sub" by auto
    with e show ?thesis by simp
  qed
qed

text \<open>What \<open>GetSubscription\<close> does to the state: nothing, or one new empty
  subscription under the requested name.\<close>

lemma GetSubscription_state:
  "fst (GetSubscription s r) =
     (if validSubRegexp (Form_Get (Form r) ''sub'') \<and> subs s (Form_Get (Form r) ''sub'') = None
      then s\<lparr>subs := (subs s)(Form_Get (Form r) ''sub'' \<mapsto>
                     \<lparr>Name = Form_Get (Form r) ''sub'', UnAcked = []\<rparr>)\<rparr>
      else s)"
proof (cases "validSubRegexp (Form_Get (Form r) ''sub'')")
  case False
  then show ?thesis by (simp add: GetSubscription_invalid)
next
  case True
  then show ?thesis
    by (cases "subs s (Form_Get (Form r) ''sub'')")
       (simp_all add: GetSubscription_new GetSubscription_existing)
qed

lemma GetSubscription_Some:
  assumes "validSubRegexp (Form_Get (Form r) ''sub'')"
  obtains s1 sub where "GetSubscription s r = (s1, Some sub)"
    and "subs s1 (Form_Get (Form r) ''sub'') = Some sub"
proof (cases "subs s (Form_Get (Form r) ''sub'')")
  case None
  with assms that show ?thesis by (simp add: GetSubscription_new)
next
  case (Some sub)
  with assms that show ?thesis by (simp add: GetSubscription_existing)
qed

lemma pull_handler_state: "fst (pull_handler s r) = fst (GetSubscription s r)"
  by (auto simp: pull_handler_def split: prod.splits option.splits sum.splits bool.splits)

lemma pull_handler_negative:
  assumes "validSubRegexp (Form_Get (Form r) ''sub'')"
    and "Atoi (Form_Get (Form r) ''n'') = Some k" and "k < 0"
  shows "snd (pull_handler s r) = Panic"
proof -
  obtain s1 sub where "GetSubscription s r = (s1, Some sub)"
    using assms(1) by (rule GetSubscription_Some)
  with assms(2,3) show ?thesis
    by (simp add: pull_handler_def FindUnAckedMessageIds_negative)
qed

lemma GetMessages_Nil: "GetMessages s [] = ([], True)"
  by (simp add: GetMessages_def)

lemma AckMessages_record:
  "AckMessages ids sub = \<lparr>Name = Name sub, UnAcked = UnAcked (AckMessages ids sub)\<rparr>"
  by (cases sub) (simp add: AckMessages_def Let_def)

lemma write_loop_True: "snd (write_loop (\<lambda>_. True) baseID i ms fs)"
  by (induction ms arbitrary: i fs) (simp_all add: Let_def)

subsection \<open>The effect of single requests\<close>

lemma handle_Send:
  "subs (fst (handle s (Send messages))) name =
     map_option (\<lambda>sub. sub\<lparr>UnAcked := fan_loop (NextMesgID (topic s))
         (NextMesgID (topic s) + word_of_nat (length messages)) (UnAcked sub)\<rparr>) (subs s name)"
  "files (fst (handle s (Send messages)))
     = fst (write_loop (\<lambda>_. True) (NextMesgID (topic s)) 0 messages (files s))"
proof -
  obtain fs where w: "write_loop (\<lambda>_. True) (NextMesgID (topic s)) 0 messages (files s) = (fs, True)"
    using write_loop_True [of "NextMesgID (topic s)" 0 messages "files s"]
    by (cases "write_loop (\<lambda>_. True) (NextMesgID (topic s)) 0 messages (files s)") auto
  show "subs (fst (handle s (Send messages))) name =
     map_option (\<lambda>sub. sub\<lparr>UnAcked := fan_loop (NextMesgID (topic s))
         (NextMesgID (topic s) + word_of_nat (length messages)) (UnAcked sub)\<rparr>) (subs s name)"
    by (simp add: send_handler_def CreateMessageIds_def PutMessages_def Form_request_of_Send Let_def w
          del: request_of.simps)
  show "files (fst (handle s (Send messages)))
     = fst (write_loop (\<lambda>_. True) (NextMesgID (topic s)) 0 messages (files s))"
    by (simp add: send_handler_def CreateMessageIds_def PutMessages_def Form_request_of_Send Let_def w
          del: request_of.simps)
qed

lemma handle_Pull_new:
  "validSubRegexp sub \<Longrightarrow> subs s sub = None \<Longrightarrow>
   fst (handle s (Pull sub n)) = s\<lparr>subs := (subs s)(sub \<mapsto> \<lparr>Name = sub, UnAcked = []\<rparr>)\<rparr>"
  by (simp add: pull_handler_state GetSubscription_state Form_Get_request_of_Pull
        del: request_of.simps)

lemma handle_Ack_existing:
  "subs s sub = Some x \<Longrightarrow> validSubRegexp sub \<Longrightarrow> parse_ids ids [] = Some messageIDs \<Longrightarrow>
   handle s (Ack sub ids)
     = (s\<lparr>subs := (subs s)(Name x \<mapsto> AckMessages messageIDs x)\<rparr>, Response StatusOK None)"
  by (simp add: ack_handler_def GetSubscription_existing Form_request_of_Ack
         del: request_of.simps)

lemma handle_Pull_existing:
  "subs s sub = Some x \<Longrightarrow> validSubRegexp sub \<Longrightarrow> Atoi n = Some k \<Longrightarrow> 0 \<le> k \<Longrightarrow>
   handle s (Pull sub n) =
     (case GetMessages s (take (nat k) (UnAcked x)) of
        (messages, False) \<Rightarrow> (s, Response StatusInternalServerError None)
      | (messages, True) \<Rightarrow> (s, Response StatusOK (Some (marshall messages))))"
  by (simp add: pull_handler_def GetSubscription_existing Form_Get_request_of_Pull
        FindUnAckedMessageIds_nonneg del: request_of.simps)

subsection \<open>Subscriptions stay under their own names\<close>

lemma names_agree_server0: "names_agree server0"
  by (simp add: names_agree_def server0_def)

lemma names_agree_GetSubscription:
  "names_agree s \<Longrightarrow> names_agree (fst (GetSubscription s r))"
  by (simp add: GetSubscription_state names_agree_def)

lemma GetSubscription_Name:
  assumes "names_agree s" and "GetSubscription s r = (s1, Some sub)"
  shows "Name sub = Form_Get (Form r) ''sub''"
proof (cases "validSubRegexp (Form_Get (Form r) ''sub'')")
  case False
  with assms(2) show ?thesis by (simp add: GetSubscription_invalid)
next
  case True
  show ?thesis
  proof (cases "subs s (Form_Get (Form r) ''sub'')")
    case None
    with True assms(2) show ?thesis by (auto simp: GetSubscription_new)
  next
    case (Some x)
    with True assms(2) have "sub = x" by (auto simp: GetSubscription_existing)
    with Some assms(1) show ?thesis by (simp add: names_agree_def)
  qed
qed

lemma names_agree_pull_handler:
  "names_agree s \<Longrightarrow> names_agree (fst (pull_handler s r))"
  by (simp add: pull_handler_state names_agree_GetSubscription)

lemma names_agree_unsub_handler:
  assumes "names_agree s"
  shows "names_agree (fst (unsub_handler s r))"
proof -
  have "names_agree (fst (GetSubscription s r))"
    using assms by (rule names_agree_GetSubscription)
  with assms show ?thesis
    by (cases "GetSubscription s r")
       (auto simp: unsub_handler_def DestroySubscription_def names_agree_def split: option.splits)
qed

lemma names_agree_ack_handler:
  assumes "names_agree s"
  shows "names_agree (fst (ack_handler s r))"
proof -
  have "names_agree (fst (GetSubscription s r))"
    using assms by (rule names_agree_GetSubscription)
  with assms show ?thesis
    by (cases "GetSubscription s r")
       (auto simp: ack_handler_def names_agree_def AckMessages_Name split: option.splits)
qed

lemma names_agree_send_handler:
  assumes "names_agree s"
  shows "names_agree (fst (send_handler writable s r))"
proof -
  have put: "names_agree (fst (PutMessages writable (snd (CreateMessageIds s n)) ms b))" for n ms b
    using assms
    by (auto simp: PutMessages_def CreateMessageIds_def Let_def names_agree_def
             split: prod.splits bool.splits)
  show ?thesis
  proof (cases "Method r = ''POST''")
    case False
    with assms show ?thesis by (simp add: send_handler_def)
  next
    case True
    obtain baseID s1 where c: "CreateMessageIds s (int (length (Form r ''message''))) = (baseID, s1)"
      by (cases "CreateMessageIds s (int (length (Form r ''message'')))") simp
    obtain s2 ok where pm: "PutMessages writable s1 (Form r ''message'') baseID = (s2, ok)"
      by (cases "PutMessages writable s1 (Form r ''message'') baseID") simp
    have "names_agree s2"
      using put [of "int (length (Form r ''message''))" "Form r ''message''" baseID] c pm by simp
    moreover have "fst (send_handler writable s r) = s2"
      using True c pm by (cases ok) (simp_all add: send_handler_def Let_def)
    ultimately show ?thesis by simp
  qed
qed

lemma names_agree_handle: "names_agree s \<Longrightarrow> names_agree (fst (handle s c))"
  by (cases c)
     (simp_all add: names_agree_send_handler names_agree_pull_handler names_agree_ack_handler
        names_agree_unsub_handler del: request_of.simps)

lemma names_agree_run: "names_agree s \<Longrightarrow> names_agree (run s cs)"
  by (induction cs arbitrary: s) (simp_all add: names_agree_handle)

subsection \<open>Values of the parsers on the example inputs\<close>

lemma Atoi_values:
  "Atoi ''0'' = Some 0" "Atoi ''3'' = Some 3" "Atoi ''10'' = Some 10" "Atoi ''abc'' = None"
  by (simp_all add: Atoi_def is_digit_def)

lemma parse_ids_values:
  "parse_ids [''0'', ''3'', ''4''] [] = Some [0, 3, 4]"
  "parse_ids [''6'', ''7''] [] = Some [6, 7]"
  "parse_ids [''x''] [] = None"
  by (simp_all add: ParseUint_def is_digit_def)

lemma valid_sub1: "validSubRegexp ''sub1''"
  by (simp add: is_letter_def is_name_char_def is_digit_def)

lemma invalid_0sub: "\<not> validSubRegexp ''0sub''"
  by (simp add: is_letter_def)

lemma names_agree_two_pending: "names_agree server_two_pending"
  by (simp add: names_agree_def server_two_pending_def)

subsection \<open>Batches of message ids\<close>

lemma message_ids_append:
  assumes "0 \<le> a" and "0 \<le> b"
  shows "message_ids c a @ message_ids (c + word_of_int a) b = message_ids c (a + b)"
proof -
  have n: "nat (a + b) = nat a + nat b"
    using assms by (rule nat_add_distrib)
  have "[0..<nat a + nat b] = [0..<nat a] @ [nat a..<nat a + nat b]"
    by (rule upt_add_eq_append) simp
  moreover have "[nat a..<nat a + nat b] = map (\<lambda>i. i + nat a) [0..<nat b]"
    by (simp only: map_add_upt add.commute)
  ultimately have split: "[0..<nat (a + b)] = [0..<nat a] @ map (\<lambda>i. i + nat a) [0..<nat b]"
    by (simp only: n)
  have wa: "(word_of_int a :: u64) = word_of_nat (nat a)"
    using assms by simp
  have eq: "c + word_of_nat (i + nat a) = (c + word_of_nat (nat a)) + (word_of_nat i :: u64)" for i
    by simp
  have "map (\<lambda>i. c + word_of_nat i) (map (\<lambda>i. i + nat a) [0..<nat b])
      = map (\<lambda>i. (c + word_of_nat (nat a)) + (word_of_nat i :: u64)) [0..<nat b]"
    by (simp only: map_map o_def eq)
  then show ?thesis
    by (simp only: message_ids_def split wa map_append)
qed

lemma Reserve_all_concat:
  "(\<forall>n \<in> set ns. 0 \<le> n) \<Longrightarrow>
   concat (map (\<lambda>(b, n). message_ids b n) (Reserve_all s ns))
     = message_ids (NextMesgID (topic s)) (sum_list ns)"
proof (induction ns arbitrary: s)
  case Nil
  show ?case by (simp add: message_ids_def)
next
  case (Cons n ns)
  have nn: "0 \<le> n" and rest: "\<forall>n \<in> set ns. 0 \<le> n" using Cons.prems by simp_all
  have sn: "0 \<le> sum_list ns" using rest by (simp add: sum_list_nonneg)
  obtain s' where c: "CreateMessageIds s n = (NextMesgID (topic s), s')"
    and t: "NextMesgID (topic s') = NextMesgID (topic s) + word_of_int n"
    by (simp add: CreateMessageIds_def Let_def)
  have "concat (map (\<lambda>(b, n). message_ids b n) (Reserve_all s (n # ns)))
      = message_ids (NextMesgID (topic s)) n
        @ concat (map (\<lambda>(b, n). message_ids b n) (Reserve_all s' ns))"
    by (simp add: c)
  also have "\<dots> = message_ids (NextMesgID (topic s)) n
        @ message_ids (NextMesgID (topic s) + word_of_int n) (sum_list ns)"
    by (simp only: Cons.IH [OF rest] t)
  also have "\<dots> = message_ids (NextMesgID (topic s)) (n + sum_list ns)"
    by (rule message_ids_append [OF nn sn])
  finally show ?case by simp
qed

lemma distinct_message_ids:
  assumes "n \<le> 2 ^ 64"
  shows "distinct (message_ids c n)"
proof -
  have "inj_on (\<lambda>i. c + (word_of_nat i :: u64)) {0..<nat n}"
  proof (rule inj_onI)
    fix i j assume i: "i \<in> {0..<nat n}" and j: "j \<in> {0..<nat n}"
      and e: "c + (word_of_nat i :: u64) = c + word_of_nat j"
    from i j assms have "i < 2 ^ 64" and "j < 2 ^ 64" by auto
    moreover from e have "(word_of_nat i :: u64) = word_of_nat j" by simp
    ultimately show "i = j"
      by (simp add: word_of_nat_eq_iff take_bit_nat_eq_self)
  qed
  then show ?thesis
    by (simp add: message_ids_def distinct_map)
qed

subsection \<open>The queue operations on the example queues\<close>

lemma fan_loop_9: "fan_loop 0 9 [] = [0, 1, 2, 3, 4, 5, 6, 7, 8]"
  by code_simp

lemma fan_loop_4: "fan_loop 0 4 [] = [0, 1, 2, 3]"
  by code_simp

lemma AckMessages_034:
  "UnAcked (AckMessages [0, 3, 4] \<lparr>Name = n, UnAcked = [0, 1, 2, 3, 4, 5, 6, 7, 8]\<rparr>)
     = [1, 6, 2, 7, 8, 5]"
  by code_simp

lemma AckMessages_67:
  "UnAcked (AckMessages [6, 7] \<lparr>Name = n, UnAcked = [1, 6, 2, 7, 8, 5]\<rparr>) = [1, 5, 2, 6, 8]"
  by code_simp

lemma AckMessages_67_again:
  "UnAcked (AckMessages [6, 7] \<lparr>Name = n, UnAcked = [1, 5, 2, 6, 8]\<rparr>) = [1, 5, 2, 8]"
  by code_simp

lemma AckMessages_1:
  "UnAcked (AckMessages [1] \<lparr>Name = n, UnAcked = [0, 1, 2, 3]\<rparr>) = [0, 3, 2]"
  by code_simp

lemma write_loop_nine:
  "fst (write_loop (\<lambda>_. True) 0 0 nine_messages fs)
     = fs(0 \<mapsto> ''a'', 1 \<mapsto> ''b'', 2 \<mapsto> ''c'', 3 \<mapsto> ''d'', 4 \<mapsto> ''e'', 5 \<mapsto> ''f'',
          6 \<mapsto> ''g'', 7 \<mapsto> ''h'', 8 \<mapsto> ''i'')"
  by (simp add: nine_messages_def)

section \<open>What the queue operations preserve\<close>

text \<open>
  The heap operations permute the slice: \<open>up\<close> and \<open>down\<close> keep its elements,
  \<open>heap.Push\<close> adds one and \<open>heap.Remove\<close> takes out the element of the given slot.
  So \<open>AckMessages\<close> never removes an id outside its input and never adds one, whatever
  it does to the ids of its input.
\<close>

lemma length_Swap: "length (Swap q i j) = length q"
  by (simp add: Swap_def)

lemma mset_Swap: "i < length q \<Longrightarrow> j < length q \<Longrightarrow> mset (Swap q i j) = mset q"
  by (simp add: Swap_def mset_swap)

lemma nth_Swap_other: "k \<noteq> i \<Longrightarrow> k \<noteq> j \<Longrightarrow> Swap q i j ! k = q ! k"
  by (simp add: Swap_def)

lemma length_up: "length (up h j) = length h"
proof (induction h j rule: up.induct)
  case (1 h j)
  show ?case
  proof (cases "(j - 1) div 2 = j \<or> \<not> Less h j ((j - 1) div 2)")
    case True
    then show ?thesis by (simp add: up.simps [of h j] Let_def)
  next
    case False
    then have "up h j = up (Swap h ((j - 1) div 2) j) ((j - 1) div 2)"
      by (simp add: up.simps [of h j] Let_def)
    with "1.IH" [OF refl] False show ?thesis by (simp add: length_Swap)
  qed
qed

lemma mset_up: "j < length h \<Longrightarrow> mset (up h j) = mset h"
proof (induction h j rule: up.induct)
  case (1 h j)
  show ?case
  proof (cases "(j - 1) div 2 = j \<or> \<not> Less h j ((j - 1) div 2)")
    case True
    then show ?thesis by (simp add: up.simps [of h j] Let_def)
  next
    case False
    then have u: "up h j = up (Swap h ((j - 1) div 2) j) ((j - 1) div 2)"
      by (simp add: up.simps [of h j] Let_def)
    have lt: "(j - 1) div 2 < length h" using "1.prems" by simp
    have "mset (up (Swap h ((j - 1) div 2) j) ((j - 1) div 2)) = mset (Swap h ((j - 1) div 2) j)"
      using "1.IH" [OF refl] False lt by (simp add: length_Swap)
    with u lt "1.prems" show ?thesis by (simp add: mset_Swap)
  qed
qed

lemma nth_up_above: "j < k \<Longrightarrow> up h j ! k = h ! k"
proof (induction h j rule: up.induct)
  case (1 h j)
  show ?case
  proof (cases "(j - 1) div 2 = j \<or> \<not> Less h j ((j - 1) div 2)")
    case True
    then show ?thesis by (simp add: up.simps [of h j] Let_def)
  next
    case False
    then have u: "up h j = up (Swap h ((j - 1) div 2) j) ((j - 1) div 2)"
      by (simp add: up.simps [of h j] Let_def)
    have lt: "(j - 1) div 2 < k" using "1.prems" by simp
    have "up (Swap h ((j - 1) div 2) j) ((j - 1) div 2) ! k = Swap h ((j - 1) div 2) j ! k"
      using "1.IH" [OF refl] False lt by simp
    with u lt "1.prems" show ?thesis by (simp add: nth_Swap_other)
  qed
qed

lemma down_loop_facts:
  "n \<le> length h \<Longrightarrow>
   length (fst (down_loop h i n)) = length h
   \<and> mset (fst (down_loop h i n)) = mset h
   \<and> (\<forall>k \<ge> n. fst (down_loop h i n) ! k = h ! k)"
proof (induction h i n rule: down_loop.induct)
  case (1 h i n)
  define j where "j = (if 2 * i + 1 + 1 < n \<and> Less h (2 * i + 1 + 1) (2 * i + 1)
                       then 2 * i + 1 + 1 else 2 * i + 1)"
  have unfold: "down_loop h i n =
      (if 2 * i + 1 \<ge> n then (h, i)
       else if \<not> Less h j i then (h, i) else down_loop (Swap h i j) j n)"
    unfolding j_def by (subst down_loop.simps) (simp only: Let_def)
  show ?case
  proof (cases "2 * i + 1 \<ge> n \<or> \<not> Less h j i")
    case True
    then have "down_loop h i n = (h, i)"
      unfolding unfold by auto
    then show ?thesis by simp
  next
    case False
    then have d: "down_loop h i n = down_loop (Swap h i j) j n"
      unfolding unfold by auto
    from False have j1: "\<not> n \<le> 2 * i + 1" and less: "\<not> \<not> Less h j i" by simp_all
    from j1 have jn: "j < n" and ij: "i < j" by (auto simp: j_def)
    then have in': "i < n" by simp
    have len: "n \<le> length (Swap h i j)"
      using "1.prems" by (simp add: length_Swap)
    have ih: "length (fst (down_loop (Swap h i j) j n)) = length (Swap h i j)
       \<and> mset (fst (down_loop (Swap h i j) j n)) = mset (Swap h i j)
       \<and> (\<forall>k \<ge> n. fst (down_loop (Swap h i j) j n) ! k = Swap h i j ! k)"
      by (rule "1.IH" [OF refl j1 refl j_def less len])
    have "mset (Swap h i j) = mset h"
      using in' jn "1.prems" by (intro mset_Swap) simp_all
    moreover have "\<forall>k \<ge> n. Swap h i j ! k = h ! k"
      using in' jn by (auto simp: nth_Swap_other)
    ultimately show ?thesis
      using ih unfolding d by (simp add: length_Swap)
  qed
qed

lemma mset_Remove:
  assumes "i < length h"
  shows "mset (Remove h i) = mset h - {#h ! i#}"
proof -
  let ?n = "length h - 1"
  have take_last: "mset (take (length q - 1) q) = mset q - {#q ! (length q - 1)#}"
    if "q \<noteq> []" for q :: MessageQueue
  proof -
    from that obtain ys y where q: "q = ys @ [y]"
      by (cases q rule: rev_cases) auto
    show ?thesis unfolding q by simp
  qed
  from assms have ne: "h \<noteq> []" by auto
  show ?thesis
  proof (cases "?n = i")
    case True
    then show ?thesis using take_last [OF ne] by (simp add: Remove_def Pop_q_def Let_def)
  next
    case False
    with assms have i: "i < ?n" by simp
    define h1 where "h1 = Swap h i ?n"
    define h2 where "h2 = fst (down_loop h1 i ?n)"
    define h3 where "h3 = (if \<not> (snd (down_loop h1 i ?n) > i) then up h2 i else h2)"
    have l1: "length h1 = length h" and m1: "mset h1 = mset h"
      using assms i by (simp_all add: h1_def length_Swap mset_Swap)
    have last1: "h1 ! ?n = h ! i"
      using assms i by (simp add: h1_def Swap_def)
    have n1: "?n \<le> length h1" using l1 by simp
    have l2: "length h2 = length h" and m2: "mset h2 = mset h" and last2: "h2 ! ?n = h ! i"
      using down_loop_facts [OF n1, of i] l1 m1 last1 by (simp_all add: h2_def)
    have l3: "length h3 = length h"
      by (simp add: h3_def length_up l2)
    have m3: "mset h3 = mset h"
      using i l2 by (simp add: h3_def mset_up m2)
    have last3: "h3 ! ?n = h ! i"
      using i last2 by (simp add: h3_def nth_up_above)
    have r: "Remove h i = Pop_q h3"
      using False by (simp add: Remove_def Let_def down_def h1_def h2_def h3_def split: prod.splits)
    have ne3: "h3 \<noteq> []" using l3 ne by auto
    have "mset (take (length h3 - 1) h3) = mset h3 - {#h3 ! (length h3 - 1)#}"
      using ne3 by (rule take_last)
    then have "mset (Pop_q h3) = mset h - {#h ! i#}"
      using last3 by (simp add: Pop_q_def l3 m3)
    with r show ?thesis by simp
  qed
qed


lemma idMap_lookup_fold:
  "idMap_lookup (fold (\<lambda>k m. m(k \<mapsto> True)) ids m0) k = (k \<in> set ids \<or> idMap_lookup m0 k)"
  by (induction ids arbitrary: m0) (auto simp: idMap_lookup_def)

lemma length_Remove: "i < length h \<Longrightarrow> length (Remove h i) = length h - 1"
  using mset_Remove [of i h] by (metis size_mset size_Diff_singleton nth_mem_mset)

text \<open>The loop of \<open>AckMessages\<close> removes only ids of the map, one occurrence at a time.\<close>

lemma ack_loop_removes_only:
  "k \<le> length q \<Longrightarrow>
   mset (ack_loop idMap k nID q) \<subseteq># mset q
   \<and> (\<forall>x. \<not> idMap_lookup idMap x \<longrightarrow> count (mset (ack_loop idMap k nID q)) x = count (mset q) x)"
proof (induction k arbitrary: nID q)
  case 0
  show ?case by simp
next
  case (Suc i)
  show ?case
  proof (cases "nID = 0")
    case True
    then show ?thesis by simp
  next
    case False
    show ?thesis
    proof (cases "idMap_lookup idMap (q ! i)")
      case no: False
      have "i \<le> length q" using Suc.prems by simp
      then show ?thesis using Suc.IH [of q nID] False no by simp
    next
      case yes: True
      have i: "i < length q" using Suc.prems by simp
      have m: "mset (Remove q i) = mset q - {#q ! i#}" using i by (rule mset_Remove)
      have "i \<le> length (Remove q i)" using i by (simp add: length_Remove)
      then have ih: "mset (ack_loop idMap i (nID - 1) (Remove q i)) \<subseteq># mset (Remove q i)
        \<and> (\<forall>x. \<not> idMap_lookup idMap x \<longrightarrow>
              count (mset (ack_loop idMap i (nID - 1) (Remove q i))) x = count (mset (Remove q i)) x)"
        by (rule Suc.IH)
      have sub: "mset (Remove q i) \<subseteq># mset q" unfolding m by simp
      have keep: "count (mset (Remove q i)) x = count (mset q) x" if "\<not> idMap_lookup idMap x" for x
      proof -
        from that yes have "x \<noteq> q ! i" by auto
        then show ?thesis unfolding m by simp
      qed
      have e: "ack_loop idMap (Suc i) nID q = ack_loop idMap i (nID - 1) (Remove q i)"
        using False yes by simp
      show ?thesis
        unfolding e using ih sub keep by (auto intro: subset_mset.order_trans)
    qed
  qed
qed

lemma AckMessages_removes_only:
  "mset (UnAcked (AckMessages ids sub)) \<subseteq># mset (UnAcked sub)
   \<and> (\<forall>x. x \<notin> set ids \<longrightarrow> count (mset (UnAcked (AckMessages ids sub))) x = count (mset (UnAcked sub)) x)"
proof -
  have e: "\<not> idMap_lookup Map.empty k" for k
    by (simp add: idMap_lookup_def)
  have lookup: "idMap_lookup (fold (\<lambda>k m. m(k \<mapsto> True)) ids Map.empty) k = (k \<in> set ids)" for k
    unfolding idMap_lookup_fold using e by simp
  show ?thesis
    using ack_loop_removes_only [of "length (UnAcked sub)" "UnAcked sub"
      "fold (\<lambda>k m. m(k \<mapsto> True)) ids Map.empty" "fold (\<lambda>_ n. n + 1) ids 0"]
    by (simp add: AckMessages_def Let_def lookup)
qed

lemma AckMessages_empty_ids: "AckMessages [] sub = sub"
  by (cases "UnAcked sub" rule: rev_cases) (simp_all add: AckMessages_def)


lemma mset_Push: "mset (Push h x) = add_mset x (mset h)"
  by (simp add: Push_def Push_q_def Let_def mset_up)

text \<open>The fan-out loop adds exactly the ids from \<open>i\<close> up to, not including, the bound.\<close>

lemma set_fan_loop: "set (fan_loop i bound q) = set q \<union> {x. i \<le> x \<and> x < bound}"
proof (induction i bound q rule: fan_loop.induct)
  case (1 i bound q)
  show ?case
  proof (cases "i < bound")
    case False
    then show ?thesis by (auto simp: fan_loop.simps [of i bound q])
  next
    case True
    then have ne: "i \<noteq> - 1" by (metis word_order.extremum_strict)
    have step: "(i + 1 \<le> x) = (i < x)" for x
      using ne by (simp add: inc_less_eq_iff)
    have "set (Push q i) = insert i (set q)"
      using mset_Push [of q i] by (metis set_mset_mset set_mset_add_mset_insert)
    then have "set (fan_loop i bound q) = insert i (set q) \<union> {x. i < x \<and> x < bound}"
      using "1.IH" [OF True] True by (simp add: fan_loop.simps [of i bound q] step)
    also have "\<dots> = set q \<union> {x. i \<le> x \<and> x < bound}"
      using True by auto
    finally show ?thesis .
  qed
qed

subsection \<open>How one request changes the queues\<close>

text \<open>
  One request changes the queues in this way only: a subscription that was not
  registered before the request is empty after it, and a subscription that was registered
  gains no id except, by a \<open>/send\<close>, ids from the counter's value up to the loop bound of
  the fan-out.
\<close>

lemma handle_queue_step:
  assumes wf: "names_agree s" and after: "subs (fst (handle s c)) name = Some sub'"
  shows "case subs s name of
           None \<Rightarrow> UnAcked sub' = []
         | Some sub \<Rightarrow>
             set (UnAcked sub') \<subseteq> set (UnAcked sub) \<union>
               (case c of
                  Send messages \<Rightarrow> {x. NextMesgID (topic s) \<le> x
                     \<and> x < NextMesgID (topic s) + word_of_nat (length messages)}
                | _ \<Rightarrow> {})"
proof (cases c)
  case (Send messages)
  show ?thesis
    using after unfolding Send
    by (cases "subs s name") (auto simp: handle_Send set_fan_loop simp del: handle.simps)
next
  case (Pull sub n)
  have "fst (handle s c) = fst (GetSubscription s (request_of c))"
    unfolding Pull by (simp add: pull_handler_state del: request_of.simps)
  with after show ?thesis
    unfolding Pull
    by (cases "subs s name") (auto simp: GetSubscription_state split: if_splits simp del: request_of.simps)
next
  case (Unsub sub)
  let ?r = "request_of (Unsub sub)"
  have st: "subs (fst (handle s c)) name = Some sub' \<Longrightarrow>
      subs (fst (GetSubscription s ?r)) name = Some sub'"
    unfolding Unsub
    by (cases "GetSubscription s ?r")
       (auto simp: unsub_handler_def DestroySubscription_def Form_request_of_Unsub
          split: option.splits if_splits simp del: request_of.simps)
  have "subs (fst (GetSubscription s ?r)) name = Some sub'" using after by (rule st)
  then show ?thesis
    unfolding Unsub
    by (cases "subs s name") (auto simp: GetSubscription_state split: if_splits simp del: request_of.simps)
next
  case (Ack sub ids)
  let ?r = "request_of (Ack sub ids)"
  obtain s1 res where g: "GetSubscription s ?r = (s1, res)"
    by (cases "GetSubscription s ?r") simp
  have s1: "s1 = fst (GetSubscription s ?r)" using g by simp
  have wf1: "names_agree s1" unfolding s1 using wf by (rule names_agree_GetSubscription)
  have base: "subs s1 name = Some x \<Longrightarrow>
      (case subs s name of None \<Rightarrow> UnAcked x = [] | Some sub0 \<Rightarrow> set (UnAcked x) \<subseteq> set (UnAcked sub0))" for x
    unfolding s1
    by (cases "subs s name") (auto simp: GetSubscription_state split: if_splits simp del: request_of.simps)
  show ?thesis
  proof (cases res)
    case None
    then have "fst (handle s c) = s1"
      unfolding Ack using g by (simp add: ack_handler_def Form_request_of_Ack del: request_of.simps)
    with after base [of sub'] show ?thesis
      unfolding Ack by (cases "subs s name") auto
  next
    case (Some x)
    have nx: "subs s1 (Name x) = Some x"
    proof -
      have v: "validSubRegexp (Form_Get (Form ?r) ''sub'')"
        using g Some by (cases "validSubRegexp (Form_Get (Form ?r) ''sub'')")
          (auto simp: GetSubscription_invalid)
      obtain s1' x' where g': "GetSubscription s ?r = (s1', Some x')"
        and e: "subs s1' (Form_Get (Form ?r) ''sub'') = Some x'"
        using v by (rule GetSubscription_Some)
      from g g' Some have "s1' = s1" and "x' = x" by auto
      moreover have "Name x = Form_Get (Form ?r) ''sub''"
        using wf g [unfolded Some] by (rule GetSubscription_Name)
      ultimately show ?thesis using e by simp
    qed
    show ?thesis
    proof (cases "parse_ids ids [] ")
      case None
      then have "fst (handle s c) = s1"
        unfolding Ack using g Some
        by (simp add: ack_handler_def Form_request_of_Ack del: request_of.simps)
      with after base [of sub'] show ?thesis
        unfolding Ack by (cases "subs s name") auto
    next
      case (Some messageIDs)
      have h: "fst (handle s c) = s1\<lparr>subs := (subs s1)(Name x \<mapsto> AckMessages messageIDs x)\<rparr>"
        unfolding Ack using g \<open>res = Some x\<close> Some
        by (simp add: ack_handler_def Form_request_of_Ack del: request_of.simps)
      show ?thesis
      proof (cases "name = Name x")
        case False
        with after h have "subs s1 name = Some sub'" by simp
        with base [of sub'] show ?thesis
          unfolding Ack by (cases "subs s name") auto
      next
        case True
        with after h have sub': "sub' = AckMessages messageIDs x" by simp
        have "set (UnAcked sub') \<subseteq> set (UnAcked x)"
          unfolding sub'
          using AckMessages_removes_only [of messageIDs x] by (metis set_mset_mono set_mset_mset)
        with base [of x] nx True show ?thesis
          unfolding Ack by (cases "subs s name") auto
      qed
    qed
  qed
qed

section \<open>The claims\<close>

subsection \<open>C10: a negative count panics\<close>

text \<open>
  Claim C10. \<open>FindUnAckedMessageIds\<close> returns a result exactly for a non-negative
  \<open>maxMessages\<close>: for every negative \<open>maxMessages\<close> and every queue, the empty one
  included, it panics in \<open>make\<close> with a negative length. A \<open>/pull\<close> request reaches
  that panic whenever its subscription name is valid and its \<open>n\<close> parses as a negative
  integer.
\<close>

theorem negative_count_panics:
  "(FindUnAckedMessageIds sub maxMessages = Inl MakesliceLenOutOfRange) = (maxMessages < 0)
   \<and> (validSubRegexp (Form_Get (Form r) ''sub'') \<and> Atoi (Form_Get (Form r) ''n'') = Some k \<and> k < 0
        \<longrightarrow> snd (pull_handler s r) = Panic)"
proof (intro conjI impI)
  show "(FindUnAckedMessageIds sub maxMessages = Inl MakesliceLenOutOfRange) = (maxMessages < 0)"
    by (cases "maxMessages < 0")
       (simp_all add: FindUnAckedMessageIds_negative FindUnAckedMessageIds_nonneg)
next
  assume "validSubRegexp (Form_Get (Form r) ''sub'') \<and> Atoi (Form_Get (Form r) ''n'') = Some k \<and> k < 0"
  then show "snd (pull_handler s r) = Panic"
    by (simp add: pull_handler_negative)
qed

theorem negative_count_panics_witness:
  "validSubRegexp ''sub0'' \<and> Atoi ''-1'' = Some (- 1) \<and> (- 1 :: int) < 0
   \<and> snd (handle server0 (Pull ''sub0'' ''-1'')) = Panic
   \<and> FindUnAckedMessageIds \<lparr>Name = ''sub0'', UnAcked = []\<rparr> (- 1) = Inl MakesliceLenOutOfRange"
  using negative_count_panics [of "\<lparr>Name = ''sub0'', UnAcked = []\<rparr>" "- 1"
      "request_of (Pull ''sub0'' ''-1'')" "- 1" server0]
  by (simp add: valid_sub0 Atoi_minus_one Form_Get_request_of_Pull
        del: request_of.simps validSubRegexp.simps)


subsection \<open>C5: pulling reads only\<close>

text \<open>
  Claim C5 fails where it says that a pull never mutates any state: \<open>/pull\<close> resolves
  its subscription first, and resolving an unknown valid name registers it. On a server
  that holds only \<open>sub0\<close>, the request \<open>/pull?sub=sub1&n=3\<close> is answered with status 200
  and zero messages and leaves \<open>sub1\<close> registered, so the state after the pull is not the
  state before it.
\<close>

theorem pull_registers_unknown_subscription:
  "subs server_two_pending ''sub1'' = None
   \<and> pull_handler server_two_pending (request_of (Pull ''sub1'' ''3''))
       = (server_two_pending\<lparr>subs := (subs server_two_pending)
             (''sub1'' \<mapsto> \<lparr>Name = ''sub1'', UnAcked = []\<rparr>)\<rparr>,
          Response StatusOK (Some \<lparr>NMessage = 0, Messages = []\<rparr>))
   \<and> subs (fst (pull_handler server_two_pending (request_of (Pull ''sub1'' ''3'')))) ''sub1''
       = Some \<lparr>Name = ''sub1'', UnAcked = []\<rparr>
   \<and> fst (pull_handler server_two_pending (request_of (Pull ''sub1'' ''3''))) \<noteq> server_two_pending"
proof -
  let ?r = "request_of (Pull ''sub1'' ''3'')"
  let ?s1 = "server_two_pending\<lparr>subs := (subs server_two_pending)
      (''sub1'' \<mapsto> \<lparr>Name = ''sub1'', UnAcked = []\<rparr>)\<rparr>"
  have absent: "subs server_two_pending ''sub1'' = None"
    by (simp add: server_two_pending_def)
  have h: "pull_handler server_two_pending ?r
     = (?s1, Response StatusOK (Some \<lparr>NMessage = 0, Messages = []\<rparr>))"
    by (simp add: pull_handler_def GetSubscription_new valid_sub1 absent Form_Get_request_of_Pull
          Atoi_values FindUnAckedMessageIds_nonneg GetMessages_Nil marshall_def
          del: request_of.simps validSubRegexp.simps)
  have reg: "subs (fst (pull_handler server_two_pending ?r)) ''sub1''
      = Some \<lparr>Name = ''sub1'', UnAcked = []\<rparr>"
    by (simp only: h fst_conv) simp
  have "fst (pull_handler server_two_pending ?r) \<noteq> server_two_pending"
  proof
    assume "fst (pull_handler server_two_pending ?r) = server_two_pending"
    then have "subs (fst (pull_handler server_two_pending ?r)) ''sub1''
        = subs server_two_pending ''sub1''"
      by (rule arg_cong)
    with reg absent show False by simp
  qed
  with absent h reg show ?thesis by (simp only: simp_thms)
qed

text \<open>
  Claim C5, amended. A \<open>/pull\<close> request never changes the topic, the stored messages
  or any registered subscription and its queue. Its only change of state is that a pull
  naming a valid, not yet registered subscription registers it with an empty queue; a pull
  of a registered subscription leaves the whole state unchanged. For every subscription and
  every count, a second identical pull right after the first leaves the state, and so the
  unacked queue, unchanged and gives the same outcome, hence the same ids.
\<close>

theorem pull_read_only:
  "pull_handler s r = (s1, out) \<Longrightarrow>
     pull_handler s1 r = (s1, out)
     \<and> topic s1 = topic s \<and> files s1 = files s
     \<and> (\<forall>name sub. subs s name = Some sub \<longrightarrow> subs s1 name = Some sub)
     \<and> (subs s (Form_Get (Form r) ''sub'') \<noteq> None \<longrightarrow> s1 = s)
     \<and> s1 = (if validSubRegexp (Form_Get (Form r) ''sub'')
                  \<and> subs s (Form_Get (Form r) ''sub'') = None
               then s\<lparr>subs := (subs s)(Form_Get (Form r) ''sub'' \<mapsto>
                              \<lparr>Name = Form_Get (Form r) ''sub'', UnAcked = []\<rparr>)\<rparr>
               else s)"
proof -
  assume p: "pull_handler s r = (s1, out)"
  obtain res where g: "GetSubscription s r = (s1, res)"
    using p pull_handler_state [of s r] by (cases "GetSubscription s r") simp
  have g1: "GetSubscription s1 r = (s1, res)"
    using g by (rule GetSubscription_idem)
  have again: "pull_handler s1 r = pull_handler s r"
    by (simp add: pull_handler_def g g1)
  have s1: "s1 = fst (GetSubscription s r)"
    using g by simp
  have frame: "topic s1 = topic s \<and> files s1 = files s
     \<and> (\<forall>name sub. subs s name = Some sub \<longrightarrow> subs s1 name = Some sub)
     \<and> (subs s (Form_Get (Form r) ''sub'') \<noteq> None \<longrightarrow> s1 = s)"
    unfolding s1 GetSubscription_state by auto
  have state: "s1 = (if validSubRegexp (Form_Get (Form r) ''sub'')
                  \<and> subs s (Form_Get (Form r) ''sub'') = None
               then s\<lparr>subs := (subs s)(Form_Get (Form r) ''sub'' \<mapsto>
                              \<lparr>Name = Form_Get (Form r) ''sub'', UnAcked = []\<rparr>)\<rparr>
               else s)"
    unfolding s1 by (rule GetSubscription_state)
  from again p have "pull_handler s1 r = (s1, out)" by simp
  with frame state show ?thesis by blast
qed

text \<open>The witness: on the server that holds \<open>sub0\<close> with the pending ids \<open>0\<close> and
  \<open>1\<close>, a pull of \<open>sub0\<close> returns both messages and leaves the state as it was, and so
  does the pull that follows it; a pull of the unknown \<open>sub1\<close> registers it, the pull
  that follows changes nothing more, and \<open>sub0\<close> keeps its queue.\<close>

theorem pull_read_only_witness:
  "pull_handler server_two_pending (request_of (Pull ''sub0'' ''3''))
     = (server_two_pending,
        Response StatusOK (Some \<lparr>NMessage = 2, Messages = [(0, ''a''), (1, ''b'')]\<rparr>))
   \<and> pull_handler (fst (pull_handler server_two_pending (request_of (Pull ''sub0'' ''3''))))
        (request_of (Pull ''sub0'' ''3''))
     = (server_two_pending,
        Response StatusOK (Some \<lparr>NMessage = 2, Messages = [(0, ''a''), (1, ''b'')]\<rparr>))
   \<and> subs (fst (pull_handler server_two_pending (request_of (Pull ''sub0'' ''3'')))) ''sub0''
     = Some \<lparr>Name = ''sub0'', UnAcked = [0, 1]\<rparr>
   \<and> pull_handler server_two_pending (request_of (Pull ''sub1'' ''3''))
     = (server_two_pending\<lparr>subs := (subs server_two_pending)(''sub1'' \<mapsto> \<lparr>Name = ''sub1'', UnAcked = []\<rparr>)\<rparr>,
        Response StatusOK (Some \<lparr>NMessage = 0, Messages = []\<rparr>))
   \<and> pull_handler (server_two_pending\<lparr>subs := (subs server_two_pending)(''sub1'' \<mapsto> \<lparr>Name = ''sub1'', UnAcked = []\<rparr>)\<rparr>)
        (request_of (Pull ''sub1'' ''3''))
     = (server_two_pending\<lparr>subs := (subs server_two_pending)(''sub1'' \<mapsto> \<lparr>Name = ''sub1'', UnAcked = []\<rparr>)\<rparr>,
        Response StatusOK (Some \<lparr>NMessage = 0, Messages = []\<rparr>))
   \<and> subs (server_two_pending\<lparr>subs := (subs server_two_pending)(''sub1'' \<mapsto> \<lparr>Name = ''sub1'', UnAcked = []\<rparr>)\<rparr>) ''sub0''
     = Some \<lparr>Name = ''sub0'', UnAcked = [0, 1]\<rparr>"
proof -
  let ?r0 = "request_of (Pull ''sub0'' ''3'')"
  let ?out0 = "Response StatusOK (Some \<lparr>NMessage = 2, Messages = [(0, ''a''), (1, ''b'')]\<rparr>)"
  let ?r1 = "request_of (Pull ''sub1'' ''3'')"
  let ?s1 = "server_two_pending\<lparr>subs := (subs server_two_pending)(''sub1'' \<mapsto> \<lparr>Name = ''sub1'', UnAcked = []\<rparr>)\<rparr>"
  let ?out1 = "Response StatusOK (Some \<lparr>NMessage = 0, Messages = []\<rparr>)"
  have here: "subs server_two_pending ''sub0'' = Some \<lparr>Name = ''sub0'', UnAcked = [0, 1]\<rparr>"
    and absent: "subs server_two_pending ''sub1'' = None"
    by (simp_all add: server_two_pending_def)
  have gm: "GetMessages server_two_pending [0, 1] = ([(0, ''a''), (1, ''b'')], True)"
    by (simp add: GetMessages_def server_two_pending_def)
  have g0: "GetSubscription server_two_pending ?r0
      = (server_two_pending, Some \<lparr>Name = ''sub0'', UnAcked = [0, 1]\<rparr>)"
    by (rule GetSubscription_existing)
       (simp_all add: Form_Get_request_of_Pull valid_sub0 here
          del: request_of.simps validSubRegexp.simps)
  have h0: "pull_handler server_two_pending ?r0 = (server_two_pending, ?out0)"
    by (simp add: pull_handler_def g0 Form_Get_request_of_Pull Atoi_values
          FindUnAckedMessageIds_nonneg gm marshall_def
          del: request_of.simps validSubRegexp.simps)
  have h1: "pull_handler server_two_pending ?r1 = (?s1, ?out1)"
    by (simp add: pull_handler_def GetSubscription_new valid_sub1 absent Form_Get_request_of_Pull
          Atoi_values FindUnAckedMessageIds_nonneg GetMessages_Nil marshall_def
          del: request_of.simps validSubRegexp.simps)
  have again0: "pull_handler server_two_pending ?r0 = (server_two_pending, ?out0)
      \<and> (subs server_two_pending (Form_Get (Form ?r0) ''sub'') \<noteq> None
           \<longrightarrow> server_two_pending = server_two_pending)"
    using pull_read_only [OF h0] by blast
  have again1: "pull_handler ?s1 ?r1 = (?s1, ?out1)
      \<and> (\<forall>name sub. subs server_two_pending name = Some sub \<longrightarrow> subs ?s1 name = Some sub)"
    using pull_read_only [OF h1] by blast
  have keep: "subs ?s1 ''sub0'' = Some \<lparr>Name = ''sub0'', UnAcked = [0, 1]\<rparr>"
    using again1 here by blast
  have f0: "fst (pull_handler server_two_pending ?r0) = server_two_pending"
    by (simp only: h0 fst_conv)
  show ?thesis
    using h0 again0 h1 again1 keep here by (simp only: f0 fst_conv simp_thms)
qed

subsection \<open>C7: pulling after unsubscribing\<close>

text \<open>
  Claim C7, as stated for any \<open>n\<close>, fails for a negative \<open>n\<close>: right after a
  successful \<open>/unsub\<close> of \<open>sub0\<close>, the request \<open>/pull?sub=sub0&n=-1\<close> panics
  instead of answering with zero messages.
\<close>

theorem unsubscribe_then_pull_negative_panics:
  "snd (handle server_two_pending (Unsub ''sub0'')) = Response StatusOK None
   \<and> snd (handle (fst (handle server_two_pending (Unsub ''sub0''))) (Pull ''sub0'' ''-1'')) = Panic"
proof -
  have "subs server_two_pending ''sub0'' = Some \<lparr>Name = ''sub0'', UnAcked = [0, 1]\<rparr>"
    by (simp add: server_two_pending_def)
  then have "snd (handle server_two_pending (Unsub ''sub0'')) = Response StatusOK None"
    by (simp add: unsub_handler_def GetSubscription_existing Form_request_of_Unsub valid_sub0
          del: request_of.simps validSubRegexp.simps)
  moreover have "snd (handle s (Pull ''sub0'' ''-1'')) = Panic" for s
    by (simp add: pull_handler_negative [where k = "- 1"] Form_Get_request_of_Pull valid_sub0
          Atoi_minus_one del: request_of.simps validSubRegexp.simps)
  ultimately show ?thesis by simp
qed


text \<open>
  Claim C7, amended. In a state where subscriptions are stored under their own names
  (every state the server reaches), after a successful \<open>/unsub\<close> of a subscription an
  immediate \<open>/pull\<close> of the same name with any non-negative count answers 200 with zero
  messages, whatever the subscription's queue held before.
\<close>

theorem unsubscribe_then_pull_empty:
  assumes wf: "names_agree s"
    and post: "Method r = ''POST''"
    and valid: "validSubRegexp (Form_Get (Form r) ''sub'')"
    and same: "Form_Get (Form r') ''sub'' = Form_Get (Form r) ''sub''"
    and n: "Atoi (Form_Get (Form r') ''n'') = Some k" and k: "0 \<le> k"
  shows "snd (unsub_handler s r) = Response StatusOK None
     \<and> snd (pull_handler (fst (unsub_handler s r)) r')
         = Response StatusOK (Some \<lparr>NMessage = 0, Messages = []\<rparr>)"
proof -
  let ?name = "Form_Get (Form r) ''sub''"
  obtain s1 sub where g: "GetSubscription s r = (s1, Some sub)"
    using valid by (rule GetSubscription_Some)
  have nm: "Name sub = ?name"
    using wf g by (rule GetSubscription_Name)
  have u: "unsub_handler s r = (DestroySubscription s1 sub, Response StatusOK None)"
    using post g by (simp add: unsub_handler_def)
  have absent: "subs (DestroySubscription s1 sub) (Form_Get (Form r') ''sub'') = None"
    using nm same by (simp add: DestroySubscription_def)
  have valid': "validSubRegexp (Form_Get (Form r') ''sub'')"
    using valid same by simp
  have "snd (pull_handler (DestroySubscription s1 sub) r')
      = Response StatusOK (Some \<lparr>NMessage = 0, Messages = []\<rparr>)"
    using n k
    by (simp add: pull_handler_def GetSubscription_new [OF valid' absent]
          FindUnAckedMessageIds_nonneg GetMessages_Nil marshall_def)
  with u show ?thesis by simp
qed

theorem unsubscribe_then_pull_empty_witness:
  "names_agree server_two_pending
   \<and> subs server_two_pending ''sub0'' = Some \<lparr>Name = ''sub0'', UnAcked = [0, 1]\<rparr>
   \<and> Atoi ''10'' = Some 10
   \<and> snd (handle server_two_pending (Unsub ''sub0'')) = Response StatusOK None
   \<and> snd (handle (fst (handle server_two_pending (Unsub ''sub0''))) (Pull ''sub0'' ''10''))
       = Response StatusOK (Some \<lparr>NMessage = 0, Messages = []\<rparr>)"
  using unsubscribe_then_pull_empty [of server_two_pending "request_of (Unsub ''sub0'')"
      "request_of (Pull ''sub0'' ''10'')" 10]
  by (simp add: names_agree_two_pending Form_request_of_Unsub Form_Get_request_of_Pull
        valid_sub0 Atoi_values del: request_of.simps validSubRegexp.simps)
     (simp add: server_two_pending_def)



subsection \<open>C4: invalid input\<close>

text \<open>
  Claim C4 fails where it says that no new subscription is created: both \<open>/pull\<close> and
  \<open>/ack\<close> resolve the subscription before they parse their numbers. On the initial
  server, a pull of the unknown name \<open>sub0\<close> with the count \<open>abc\<close>, and an ack of it with
  the id \<open>x\<close>, are answered with status 400 and leave \<open>sub0\<close> registered.
\<close>

theorem pull_or_ack_rejected_after_registering:
  "subs server0 ''sub0'' = None
   \<and> pull_handler server0 (request_of (Pull ''sub0'' ''abc''))
       = (server0\<lparr>subs := [''sub0'' \<mapsto> \<lparr>Name = ''sub0'', UnAcked = []\<rparr>]\<rparr>,
          Response StatusBadRequest None)
   \<and> ack_handler server0 (request_of (Ack ''sub0'' [''x'']))
       = (server0\<lparr>subs := [''sub0'' \<mapsto> \<lparr>Name = ''sub0'', UnAcked = []\<rparr>]\<rparr>,
          Response StatusBadRequest None)
   \<and> subs (server0\<lparr>subs := [''sub0'' \<mapsto> \<lparr>Name = ''sub0'', UnAcked = []\<rparr>]\<rparr>) ''sub0''
       = Some \<lparr>Name = ''sub0'', UnAcked = []\<rparr>"
proof -
  have absent: "subs server0 ''sub0'' = None"
    by (simp add: server0_def)
  have e: "(subs server0)(''sub0'' \<mapsto> x) = [''sub0'' \<mapsto> x]" for x
    by (simp add: server0_def)
  have "pull_handler server0 (request_of (Pull ''sub0'' ''abc''))
       = (server0\<lparr>subs := [''sub0'' \<mapsto> \<lparr>Name = ''sub0'', UnAcked = []\<rparr>]\<rparr>,
          Response StatusBadRequest None)"
    by (simp add: pull_handler_def GetSubscription_new valid_sub0 absent Form_Get_request_of_Pull
          Atoi_values e del: request_of.simps validSubRegexp.simps)
  moreover have "ack_handler server0 (request_of (Ack ''sub0'' [''x'']))
       = (server0\<lparr>subs := [''sub0'' \<mapsto> \<lparr>Name = ''sub0'', UnAcked = []\<rparr>]\<rparr>,
          Response StatusBadRequest None)"
    by (simp add: ack_handler_def GetSubscription_new valid_sub0 absent Form_request_of_Ack
          parse_ids_values e del: request_of.simps validSubRegexp.simps parse_ids.simps)
  ultimately show ?thesis using absent by simp
qed


text \<open>
  Claim C4, amended. A request with a malformed subscription name is rejected with a
  client error (400, or 405 for \<open>/ack\<close> and \<open>/unsub\<close> sent with another method than
  POST) and the state is unchanged. A \<open>/pull\<close> with a valid name and a non-integer count,
  and a POST \<open>/ack\<close> with a valid name and a non-integer id, are rejected with status 400;
  the state is unchanged when the named subscription is registered, and otherwise the only
  change is that the name is registered with an empty queue. No queue of a registered
  subscription changes.
\<close>

theorem invalid_input_rejected:
  "(\<not> validSubRegexp (Form_Get (Form r) ''sub'') \<longrightarrow>
       pull_handler s r = (s, Response StatusBadRequest None)
     \<and> ack_handler s r = (s, Response (if Method r \<noteq> ''POST'' then StatusMethodNotAllowed
                                       else StatusBadRequest) None)
     \<and> unsub_handler s r = (s, Response (if Method r \<noteq> ''POST'' then StatusMethodNotAllowed
                                         else StatusBadRequest) None))
   \<and> (validSubRegexp (Form_Get (Form r) ''sub'') \<and> Atoi (Form_Get (Form r) ''n'') = None \<longrightarrow>
       pull_handler s r =
         (case subs s (Form_Get (Form r) ''sub'') of
            Some sub \<Rightarrow> s
          | None \<Rightarrow> s\<lparr>subs := (subs s)(Form_Get (Form r) ''sub'' \<mapsto>
                                   \<lparr>Name = Form_Get (Form r) ''sub'', UnAcked = []\<rparr>)\<rparr>,
          Response StatusBadRequest None))
   \<and> (validSubRegexp (Form_Get (Form r) ''sub'') \<and> Method r = ''POST''
        \<and> parse_ids (Form r ''id'') [] = None \<longrightarrow>
       ack_handler s r =
         (case subs s (Form_Get (Form r) ''sub'') of
            Some sub \<Rightarrow> s
          | None \<Rightarrow> s\<lparr>subs := (subs s)(Form_Get (Form r) ''sub'' \<mapsto>
                                   \<lparr>Name = Form_Get (Form r) ''sub'', UnAcked = []\<rparr>)\<rparr>,
          Response StatusBadRequest None))"
proof (intro conjI impI)
  assume inv: "\<not> validSubRegexp (Form_Get (Form r) ''sub'')"
  show "pull_handler s r = (s, Response StatusBadRequest None)"
    using inv by (simp add: pull_handler_def GetSubscription_invalid)
  show "ack_handler s r = (s, Response (if Method r \<noteq> ''POST'' then StatusMethodNotAllowed
                                       else StatusBadRequest) None)"
    using inv by (simp add: ack_handler_def GetSubscription_invalid)
  show "unsub_handler s r = (s, Response (if Method r \<noteq> ''POST'' then StatusMethodNotAllowed
                                         else StatusBadRequest) None)"
    using inv by (simp add: unsub_handler_def GetSubscription_invalid)
next
  assume a: "validSubRegexp (Form_Get (Form r) ''sub'') \<and> Atoi (Form_Get (Form r) ''n'') = None"
  then show "pull_handler s r =
         (case subs s (Form_Get (Form r) ''sub'') of
            Some sub \<Rightarrow> s
          | None \<Rightarrow> s\<lparr>subs := (subs s)(Form_Get (Form r) ''sub'' \<mapsto>
                                   \<lparr>Name = Form_Get (Form r) ''sub'', UnAcked = []\<rparr>)\<rparr>,
          Response StatusBadRequest None)"
    by (cases "subs s (Form_Get (Form r) ''sub'')")
       (simp_all add: pull_handler_def GetSubscription_new GetSubscription_existing)
next
  assume a: "validSubRegexp (Form_Get (Form r) ''sub'') \<and> Method r = ''POST''
        \<and> parse_ids (Form r ''id'') [] = None"
  then show "ack_handler s r =
         (case subs s (Form_Get (Form r) ''sub'') of
            Some sub \<Rightarrow> s
          | None \<Rightarrow> s\<lparr>subs := (subs s)(Form_Get (Form r) ''sub'' \<mapsto>
                                   \<lparr>Name = Form_Get (Form r) ''sub'', UnAcked = []\<rparr>)\<rparr>,
          Response StatusBadRequest None)"
    by (cases "subs s (Form_Get (Form r) ''sub'')")
       (simp_all add: ack_handler_def GetSubscription_new GetSubscription_existing)
qed

theorem invalid_input_rejected_witness:
  "\<not> validSubRegexp ''0sub'' \<and> validSubRegexp ''sub0'' \<and> validSubRegexp ''sub1''
   \<and> Atoi ''abc'' = None \<and> parse_ids [''x''] [] = None
   \<and> handle server_two_pending (Pull ''0sub'' ''3'') = (server_two_pending, Response StatusBadRequest None)
   \<and> handle server_two_pending (Ack ''0sub'' [''0'']) = (server_two_pending, Response StatusBadRequest None)
   \<and> handle server_two_pending (Unsub ''0sub'') = (server_two_pending, Response StatusBadRequest None)
   \<and> handle server_two_pending (Pull ''sub0'' ''abc'') = (server_two_pending, Response StatusBadRequest None)
   \<and> handle server_two_pending (Ack ''sub0'' [''x'']) = (server_two_pending, Response StatusBadRequest None)
   \<and> handle server_two_pending (Pull ''sub1'' ''abc'')
       = (server_two_pending\<lparr>subs := (subs server_two_pending)(''sub1'' \<mapsto> \<lparr>Name = ''sub1'', UnAcked = []\<rparr>)\<rparr>,
          Response StatusBadRequest None)"
proof -
  have here: "subs server_two_pending ''sub0'' = Some \<lparr>Name = ''sub0'', UnAcked = [0, 1]\<rparr>"
    and absent: "subs server_two_pending ''sub1'' = None"
    by (simp_all add: server_two_pending_def)
  note inv = invalid_input_rejected [THEN conjunct1, rule_format]
  note cnt = invalid_input_rejected [THEN conjunct2, THEN conjunct1, rule_format]
  note ids = invalid_input_rejected [THEN conjunct2, THEN conjunct2, rule_format]
  have 1: "handle server_two_pending (Pull ''0sub'' ''3'')
      = (server_two_pending, Response StatusBadRequest None)"
    using inv [of "request_of (Pull ''0sub'' ''3'')" server_two_pending]
    by (simp add: Form_Get_request_of_Pull invalid_0sub
          del: request_of.simps validSubRegexp.simps)
  have 2: "handle server_two_pending (Ack ''0sub'' [''0''])
      = (server_two_pending, Response StatusBadRequest None)"
    using inv [of "request_of (Ack ''0sub'' [''0''])" server_two_pending]
    by (simp add: Form_request_of_Ack invalid_0sub
          del: request_of.simps validSubRegexp.simps)
  have 3: "handle server_two_pending (Unsub ''0sub'')
      = (server_two_pending, Response StatusBadRequest None)"
    using inv [of "request_of (Unsub ''0sub'')" server_two_pending]
    by (simp add: Form_request_of_Unsub invalid_0sub
          del: request_of.simps validSubRegexp.simps)
  have 4: "handle server_two_pending (Pull ''sub0'' ''abc'')
      = (server_two_pending, Response StatusBadRequest None)"
    using cnt [of "request_of (Pull ''sub0'' ''abc'')" server_two_pending]
    by (simp add: Form_Get_request_of_Pull valid_sub0 Atoi_values here
          del: request_of.simps validSubRegexp.simps)
  have 5: "handle server_two_pending (Ack ''sub0'' [''x''])
      = (server_two_pending, Response StatusBadRequest None)"
    using ids [of "request_of (Ack ''sub0'' [''x''])" server_two_pending]
    by (simp add: Form_request_of_Ack valid_sub0 parse_ids_values here
          del: request_of.simps validSubRegexp.simps parse_ids.simps)
  have 6: "handle server_two_pending (Pull ''sub1'' ''abc'')
       = (server_two_pending\<lparr>subs := (subs server_two_pending)(''sub1'' \<mapsto> \<lparr>Name = ''sub1'', UnAcked = []\<rparr>)\<rparr>,
          Response StatusBadRequest None)"
    using cnt [of "request_of (Pull ''sub1'' ''abc'')" server_two_pending]
    by (simp add: Form_Get_request_of_Pull valid_sub1 Atoi_values absent
          del: request_of.simps validSubRegexp.simps)
  show ?thesis
    using 1 2 3 4 5 6
    by (simp only: invalid_0sub valid_sub0 valid_sub1 Atoi_values parse_ids_values
          simp_thms)
qed



subsection \<open>C6: reserving message ids\<close>

text \<open>
  Claim C6 holds only while the 64-bit counter does not wrap. With the counter at
  \<open>2^64 - 1\<close>, reserving one id returns \<open>2^64 - 1\<close> and leaves the counter at \<open>0\<close>, not
  at the old value plus one. From the initial counter \<open>0\<close>, four successive calls with the
  counts \<open>2^63 - 1\<close>, \<open>2^63 - 1\<close>, \<open>2\<close> and \<open>1\<close> are given the bases \<open>0\<close>,
  \<open>2^63 - 1\<close>, \<open>2^64 - 2\<close> and \<open>0\<close>: the last call receives id \<open>0\<close> again.
\<close>

theorem CreateMessageIds_wraps:
  "fst (CreateMessageIds server_last_id 1) = 18446744073709551615
   \<and> NextMesgID (topic (snd (CreateMessageIds server_last_id 1))) = 0
   \<and> unat (NextMesgID (topic (snd (CreateMessageIds server_last_id 1))))
       \<noteq> unat (NextMesgID (topic server_last_id)) + 1
   \<and> map fst (Reserve_all server0 [9223372036854775807, 9223372036854775807, 2, 1])
       = [0, 9223372036854775807, 18446744073709551614, 0]"
  by (simp add: CreateMessageIds_def server_last_id_def server0_def)


text \<open>
  Claim C6, amended. \<open>CreateMessageIds\<close> returns the counter's value before the call
  and, for a non-negative count, leaves the counter at the old value plus the count
  modulo \<open>2^64\<close>; a count of \<open>0\<close> returns the counter and changes nothing. The ids
  received by successive calls, one call after the other, are the consecutive ids
  from the counter's first value on (modulo \<open>2^64\<close>), without gaps; they are pairwise
  different, so the ranges are disjoint and nothing is reused, as long as the counts sum to
  at most \<open>2^64\<close>.
\<close>

theorem CreateMessageIds_reserves:
  "fst (CreateMessageIds s n) = NextMesgID (topic s)
   \<and> (0 \<le> n \<longrightarrow> unat (NextMesgID (topic (snd (CreateMessageIds s n))))
                   = (unat (NextMesgID (topic s)) + nat n) mod 2 ^ 64)
   \<and> CreateMessageIds s 0 = (NextMesgID (topic s), s)
   \<and> ((\<forall>n \<in> set ns. 0 \<le> n) \<longrightarrow>
         concat (map (\<lambda>(b, n). message_ids b n) (Reserve_all s ns))
           = message_ids (NextMesgID (topic s)) (sum_list ns))
   \<and> ((\<forall>n \<in> set ns. 0 \<le> n) \<and> sum_list ns \<le> 2 ^ 64 \<longrightarrow>
         distinct (concat (map (\<lambda>(b, n). message_ids b n) (Reserve_all s ns))))"
proof (intro conjI impI)
  show "fst (CreateMessageIds s n) = NextMesgID (topic s)"
    by (simp add: CreateMessageIds_def Let_def)
next
  assume n: "0 \<le> n"
  then have "(word_of_int n :: u64) = word_of_nat (nat n)" by simp
  then show "unat (NextMesgID (topic (snd (CreateMessageIds s n))))
      = (unat (NextMesgID (topic s)) + nat n) mod 2 ^ 64"
    by (simp add: CreateMessageIds_def Let_def unat_word_ariths unat_of_nat mod_simps)
next
  show "CreateMessageIds s 0 = (NextMesgID (topic s), s)"
    by (simp add: CreateMessageIds_def Let_def)
next
  assume "\<forall>n \<in> set ns. 0 \<le> n"
  then show "concat (map (\<lambda>(b, n). message_ids b n) (Reserve_all s ns))
      = message_ids (NextMesgID (topic s)) (sum_list ns)"
    by (rule Reserve_all_concat)
next
  assume a: "(\<forall>n \<in> set ns. 0 \<le> n) \<and> sum_list ns \<le> 2 ^ 64"
  then show "distinct (concat (map (\<lambda>(b, n). message_ids b n) (Reserve_all s ns)))"
    by (simp add: Reserve_all_concat distinct_message_ids)
qed

theorem CreateMessageIds_reserves_witness:
  "fst (CreateMessageIds server_two_pending 3) = 2
   \<and> unat (NextMesgID (topic (snd (CreateMessageIds server_two_pending 3)))) = 5
   \<and> CreateMessageIds server_two_pending 0 = (2, server_two_pending)
   \<and> concat (map (\<lambda>(b, n). message_ids b n) (Reserve_all server_two_pending [3, 0, 2]))
       = [2, 3, 4, 5, 6]
   \<and> distinct (concat (map (\<lambda>(b, n). message_ids b n) (Reserve_all server_two_pending [3, 0, 2])))"
proof -
  have t: "NextMesgID (topic server_two_pending) = 2"
    by (simp add: server_two_pending_def)
  have m: "message_ids 2 5 = [2, 3, 4, 5, 6]"
    by (simp add: message_ids_def upt_rec)
  show ?thesis
    using CreateMessageIds_reserves [of server_two_pending 3 "[3, 0, 2]"]
    by (simp add: t m)
qed



subsection \<open>C1: acknowledging removes the acknowledged ids\<close>

text \<open>
  Claim C1, evaluated on the code. A subscription receives the ids \<open>0..8\<close> and
  acknowledges \<open>0\<close>, \<open>3\<close> and \<open>4\<close>; its queue slice is then \<open>[1, 6, 2, 7, 8, 5]\<close>.
  Acknowledging \<open>6\<close> and \<open>7\<close> now removes \<open>7\<close> only: removing slot 3 moves the last
  element into it and sifts it up, which brings \<open>6\<close> down from slot 1 into slot 3, behind
  the backwards scan. Id \<open>6\<close> is in the input and still in the queue after the call.
\<close>

theorem AckMessages_leaves_acked_id:
  "UnAcked (AckMessages [0, 3, 4] \<lparr>Name = ''sub0'', UnAcked = fan_loop 0 9 []\<rparr>)
     = [1, 6, 2, 7, 8, 5]
   \<and> UnAcked (AckMessages [6, 7] \<lparr>Name = ''sub0'', UnAcked = [1, 6, 2, 7, 8, 5]\<rparr>)
     = [1, 5, 2, 6, 8]"
  by (simp add: fan_loop_9 AckMessages_034 AckMessages_67)


subsection \<open>C2: the ids returned by a pull\<close>

text \<open>
  Claim C2, evaluated on the code. A subscription receives the ids \<open>0..3\<close> and
  acknowledges \<open>1\<close>; its queue slice is then \<open>[0, 3, 2]\<close>. \<open>FindUnAckedMessageIds\<close>
  returns the first slots of the slice: for a count of 2 the ids \<open>0\<close> and \<open>3\<close>, although
  \<open>2\<close> is pending and smaller than \<open>3\<close>; for a count of 3 the ids in the order
  \<open>0, 3, 2\<close>.
\<close>

theorem FindUnAckedMessageIds_not_smallest:
  "UnAcked (AckMessages [1] \<lparr>Name = ''sub0'', UnAcked = fan_loop 0 4 []\<rparr>) = [0, 3, 2]
   \<and> FindUnAckedMessageIds \<lparr>Name = ''sub0'', UnAcked = [0, 3, 2]\<rparr> 2 = Inr [0, 3]
   \<and> FindUnAckedMessageIds \<lparr>Name = ''sub0'', UnAcked = [0, 3, 2]\<rparr> 3 = Inr [0, 3, 2]"
  by (simp add: fan_loop_4 AckMessages_1 FindUnAckedMessageIds_nonneg)


subsection \<open>C3: acknowledging twice\<close>

text \<open>
  Claim C3, evaluated on the code. On the queue \<open>[1, 6, 2, 7, 8, 5]\<close> of claim C1,
  acknowledging \<open>6\<close> and \<open>7\<close> once leaves \<open>[1, 5, 2, 6, 8]\<close>; acknowledging them a
  second time leaves \<open>[1, 5, 2, 8]\<close>. The second call removes the id that the first one
  missed, so it is not without effect.
\<close>

theorem AckMessages_twice_differs:
  "UnAcked (AckMessages [6, 7] \<lparr>Name = ''sub0'', UnAcked = [1, 6, 2, 7, 8, 5]\<rparr>)
     = [1, 5, 2, 6, 8]
   \<and> UnAcked (AckMessages [6, 7]
        (AckMessages [6, 7] \<lparr>Name = ''sub0'', UnAcked = [1, 6, 2, 7, 8, 5]\<rparr>))
     = [1, 5, 2, 8]"
proof -
  have "AckMessages [6, 7] \<lparr>Name = ''sub0'', UnAcked = [1, 6, 2, 7, 8, 5]\<rparr>
      = \<lparr>Name = ''sub0'', UnAcked = [1, 5, 2, 6, 8]\<rparr>"
    using AckMessages_record [of "[6, 7]" "\<lparr>Name = ''sub0'', UnAcked = [1, 6, 2, 7, 8, 5]\<rparr>"]
    by (simp add: AckMessages_67)
  then show ?thesis
    by (simp add: AckMessages_67_again)
qed


subsection \<open>C8: what a queue holds\<close>

text \<open>
  Claim C8, evaluated on the code. From the initial server: \<open>sub0\<close> is created by a
  pull of zero messages, nine messages are published (ids \<open>0..8\<close>), \<open>sub0\<close> acknowledges
  \<open>0\<close>, \<open>3\<close>, \<open>4\<close> and then \<open>6\<close>, \<open>7\<close>. Every request is answered with status 200.
  In the state reached, id \<open>6\<close>, which \<open>sub0\<close> has acknowledged, is still in its queue, and
  the next pull returns its message.
\<close>

theorem acked_id_stays_pending:
  "map_option UnAcked (subs (run server0 [Pull ''sub0'' ''0'', Send nine_messages,
       Ack ''sub0'' [''0'', ''3'', ''4'']]) ''sub0'') = Some [1, 6, 2, 7, 8, 5]
   \<and> handle (run server0 [Pull ''sub0'' ''0'', Send nine_messages,
       Ack ''sub0'' [''0'', ''3'', ''4''], Ack ''sub0'' [''6'', ''7'']]) (Pull ''sub0'' ''10'')
     = (run server0 [Pull ''sub0'' ''0'', Send nine_messages,
          Ack ''sub0'' [''0'', ''3'', ''4''], Ack ''sub0'' [''6'', ''7'']],
        Response StatusOK (Some \<lparr>NMessage = 5,
          Messages = [(1, ''b''), (5, ''f''), (2, ''c''), (6, ''g''), (8, ''i'')]\<rparr>))"
proof -
  let ?s1 = "fst (handle server0 (Pull ''sub0'' ''0''))"
  let ?s2 = "fst (handle ?s1 (Send nine_messages))"
  let ?s3 = "fst (handle ?s2 (Ack ''sub0'' [''0'', ''3'', ''4'']))"
  let ?s4 = "fst (handle ?s3 (Ack ''sub0'' [''6'', ''7'']))"
  have s1: "?s1 = server0\<lparr>subs := (subs server0)(''sub0'' \<mapsto> \<lparr>Name = ''sub0'', UnAcked = []\<rparr>)\<rparr>"
    by (rule handle_Pull_new [OF valid_sub0]) (simp add: server0_def)
  have t1: "NextMesgID (topic ?s1) = 0" and f1: "files ?s1 = Map.empty"
    and q1: "subs ?s1 ''sub0'' = Some \<lparr>Name = ''sub0'', UnAcked = []\<rparr>"
    unfolding s1 by (simp_all add: server0_def)
  have q2: "subs ?s2 ''sub0'' = Some \<lparr>Name = ''sub0'', UnAcked = [0, 1, 2, 3, 4, 5, 6, 7, 8]\<rparr>"
    by (simp only: handle_Send q1 t1) (simp add: nine_messages_def fan_loop_9)
  have f2: "files ?s2 = [0 \<mapsto> ''a'', 1 \<mapsto> ''b'', 2 \<mapsto> ''c'', 3 \<mapsto> ''d'', 4 \<mapsto> ''e'',
      5 \<mapsto> ''f'', 6 \<mapsto> ''g'', 7 \<mapsto> ''h'', 8 \<mapsto> ''i'']"
    by (simp only: handle_Send t1 f1 write_loop_nine)
  have a3: "AckMessages [0, 3, 4] \<lparr>Name = ''sub0'', UnAcked = [0, 1, 2, 3, 4, 5, 6, 7, 8]\<rparr>
      = \<lparr>Name = ''sub0'', UnAcked = [1, 6, 2, 7, 8, 5]\<rparr>"
    using AckMessages_record [of "[0, 3, 4]" "\<lparr>Name = ''sub0'', UnAcked = [0, 1, 2, 3, 4, 5, 6, 7, 8]\<rparr>"]
    by (simp add: AckMessages_034)
  have a4: "AckMessages [6, 7] \<lparr>Name = ''sub0'', UnAcked = [1, 6, 2, 7, 8, 5]\<rparr>
      = \<lparr>Name = ''sub0'', UnAcked = [1, 5, 2, 6, 8]\<rparr>"
    using AckMessages_record [of "[6, 7]" "\<lparr>Name = ''sub0'', UnAcked = [1, 6, 2, 7, 8, 5]\<rparr>"]
    by (simp add: AckMessages_67)
  have h3: "handle ?s2 (Ack ''sub0'' [''0'', ''3'', ''4''])
      = (?s2\<lparr>subs := (subs ?s2)(''sub0'' \<mapsto> \<lparr>Name = ''sub0'', UnAcked = [1, 6, 2, 7, 8, 5]\<rparr>)\<rparr>,
         Response StatusOK None)"
    using handle_Ack_existing [OF q2 valid_sub0 parse_ids_values(1)]
    by (simp add: a3 del: handle.simps)
  have q3: "subs ?s3 ''sub0'' = Some \<lparr>Name = ''sub0'', UnAcked = [1, 6, 2, 7, 8, 5]\<rparr>"
    and f3: "files ?s3 = files ?s2"
    by (simp_all add: h3 del: handle.simps)
  have h4: "handle ?s3 (Ack ''sub0'' [''6'', ''7''])
      = (?s3\<lparr>subs := (subs ?s3)(''sub0'' \<mapsto> \<lparr>Name = ''sub0'', UnAcked = [1, 5, 2, 6, 8]\<rparr>)\<rparr>,
         Response StatusOK None)"
    using handle_Ack_existing [OF q3 valid_sub0 parse_ids_values(2)]
    by (simp add: a4 del: handle.simps)
  have q4: "subs ?s4 ''sub0'' = Some \<lparr>Name = ''sub0'', UnAcked = [1, 5, 2, 6, 8]\<rparr>"
    and f4: "files ?s4 = files ?s2"
    by (simp_all add: h4 f3 del: handle.simps)
  have g: "GetMessages ?s4 [1, 5, 2, 6, 8]
      = ([(1, ''b''), (5, ''f''), (2, ''c''), (6, ''g''), (8, ''i'')], True)"
    by (simp only: GetMessages_def f4 f2) simp
  have p: "handle ?s4 (Pull ''sub0'' ''10'')
      = (?s4, Response StatusOK (Some \<lparr>NMessage = 5,
          Messages = [(1, ''b''), (5, ''f''), (2, ''c''), (6, ''g''), (8, ''i'')]\<rparr>))"
    using handle_Pull_existing [OF q4 valid_sub0 Atoi_values(3)]
    by (simp add: g marshall_def del: handle.simps)
  have r3: "run server0 [Pull ''sub0'' ''0'', Send nine_messages,
       Ack ''sub0'' [''0'', ''3'', ''4'']] = ?s3"
    by (simp only: run.simps)
  have r4: "run server0 [Pull ''sub0'' ''0'', Send nine_messages,
       Ack ''sub0'' [''0'', ''3'', ''4''], Ack ''sub0'' [''6'', ''7'']] = ?s4"
    by (simp only: run.simps)
  show ?thesis
    by (simp only: r3 r4 q3 p) (simp del: handle.simps)
qed


end
